theory Spec2Isabelle
  imports Complex_Main
begin

section \<open>JavaScript strings\<close>

text \<open>
  A string is the list of its code units. The model covers strings whose code units lie
  below 256, which is what \<^typ>\<open>char\<close> holds. In that range the characters that
  \<^verbatim>\<open>String.prototype.trim\<close> removes are TAB, LF, VT, FF, CR, SPACE and NBSP.
\<close>

definition isWhiteSpace :: "char \<Rightarrow> bool" where
  "isWhiteSpace c \<longleftrightarrow>
     c \<in> set [CHR 0x09, CHR 0x0A, CHR 0x0B, CHR 0x0C, CHR 0x0D, CHR 0x20, CHR 0xA0]"

definition trim :: "string \<Rightarrow> string" where
  "trim s = rev (dropWhile isWhiteSpace (rev (dropWhile isWhiteSpace s)))"

text \<open>\<^verbatim>\<open>s.split(c)\<close> for a one-character separator: never the empty array.\<close>

fun split_on :: "char \<Rightarrow> string \<Rightarrow> string list" where
  "split_on c [] = [[]]"
| "split_on c (x # xs) =
     (if x = c then [] # split_on c xs
      else (x # hd (split_on c xs)) # tl (split_on c xs))"

text \<open>\<^verbatim>\<open>parts.join(sep)\<close>.\<close>

fun joinWith :: "string \<Rightarrow> string list \<Rightarrow> string" where
  "joinWith sep [] = []"
| "joinWith sep [x] = x"
| "joinWith sep (x # y # zs) = x @ sep @ joinWith sep (y # zs)"

text \<open>\<^verbatim>\<open>path.replace(/\\/g, '/')\<close>.\<close>

definition replaceBackslashes :: "string \<Rightarrow> string" where
  "replaceBackslashes s = map (\<lambda>c. if c = CHR 0x5C then CHR ''/'' else c) s"

section \<open>Virtual paths (server module)\<close>

text \<open>One iteration of the loop of \<^verbatim>\<open>normalizePath\<close> over the pieces of the path.\<close>

definition normalizeStep :: "string list \<Rightarrow> string \<Rightarrow> string list" where
  "normalizeStep segments piece =
     (let segment = trim piece in
      if segment = [] \<or> segment = ''.'' then segments
      else if segment = ''..'' then butlast segments
      else segments @ [segment])"

definition normalizeSegments :: "string \<Rightarrow> string list" where
  "normalizeSegments path =
     foldl normalizeStep [] (split_on CHR ''/'' (replaceBackslashes path))"

definition renderPath :: "string list \<Rightarrow> string" where
  "renderPath segments =
     (if segments \<noteq> [] then ''/'' @ joinWith ''/'' segments else ''/'')"

definition normalizePath :: "string \<Rightarrow> string" where
  "normalizePath path = renderPath (normalizeSegments path)"

text \<open>\<^verbatim>\<open>path.split('/').filter(Boolean)\<close>.\<close>

definition pathSegments :: "string \<Rightarrow> string list" where
  "pathSegments path = filter (\<lambda>s. s \<noteq> []) (split_on CHR ''/'' path)"

definition getParentPath :: "string \<Rightarrow> string option" where
  "getParentPath path =
     (if path = ''/'' then None
      else Some (renderPath (butlast (pathSegments path))))"

definition getPathLeafName :: "string \<Rightarrow> string option" where
  "getPathLeafName path =
     (let segments = pathSegments path in
      if length segments > 0 then Some (last segments) else None)"

definition joinPaths :: "string \<Rightarrow> string \<Rightarrow> string" where
  "joinPaths base child = normalizePath (base @ ''/'' @ child)"


section \<open>Facts about strings\<close>

text \<open>A string that \<^const>\<open>trim\<close> leaves alone.\<close>

definition trimmed :: "string \<Rightarrow> bool" where
  "trimmed s \<longleftrightarrow> s = [] \<or> (\<not> isWhiteSpace (hd s) \<and> \<not> isWhiteSpace (last s))"

lemma dropWhile_hd_not: "dropWhile P xs \<noteq> [] \<Longrightarrow> \<not> P (hd (dropWhile P xs))"
  by (metis hd_dropWhile)

lemma dropWhile_last: "dropWhile P xs \<noteq> [] \<Longrightarrow> last (dropWhile P xs) = last xs"
  by (induction xs) (auto split: if_splits)

lemma trim_trimmed: "trimmed (trim s)"
proof (cases "trim s = []")
  case True
  then show ?thesis by (simp add: trimmed_def)
next
  case False
  let ?t = "dropWhile isWhiteSpace s"
  let ?u = "dropWhile isWhiteSpace (rev ?t)"
  from False have u: "?u \<noteq> []" by (simp add: trim_def)
  have t: "?t \<noteq> []"
  proof
    assume "?t = []"
    with u show False by (metis dropWhile.simps(1) rev.simps(1))
  qed
  have "last (rev ?u) = hd ?u" using u by (simp add: last_rev)
  moreover have "\<not> isWhiteSpace (hd ?u)" using u by (rule dropWhile_hd_not)
  moreover have "hd (rev ?u) = last ?u" using u by (simp add: hd_rev)
  moreover have "last ?u = last (rev ?t)" using u by (rule dropWhile_last)
  moreover have "last (rev ?t) = hd ?t" using t by (simp add: last_rev)
  moreover have "\<not> isWhiteSpace (hd ?t)" using t by (rule dropWhile_hd_not)
  ultimately show ?thesis by (simp add: trimmed_def trim_def)
qed

lemma dropWhile_id: "xs = [] \<or> \<not> P (hd xs) \<Longrightarrow> dropWhile P xs = xs"
  by (cases xs) auto

lemma trimmed_trim: "trimmed s \<Longrightarrow> trim s = s"
proof -
  assume a: "trimmed s"
  have 1: "dropWhile isWhiteSpace s = s"
    using a by (intro dropWhile_id) (auto simp: trimmed_def)
  have 2: "dropWhile isWhiteSpace (rev s) = rev s"
    using a by (intro dropWhile_id) (auto simp: trimmed_def hd_rev)
  show ?thesis by (simp add: trim_def 1 2)
qed

lemma trim_idem: "trim (trim s) = trim s"
  by (simp add: trim_trimmed trimmed_trim)

lemma set_trim: "x \<in> set (trim s) \<Longrightarrow> x \<in> set s"
  by (auto simp: trim_def dest!: set_dropWhileD)

lemma split_on_nonempty [simp]: "split_on c s \<noteq> []"
  by (induction s) auto

lemma split_on_no_sep: "x \<in> set (split_on c s) \<Longrightarrow> c \<notin> set x"
proof (induction s arbitrary: x)
  case Nil
  then show ?case by simp
next
  case (Cons a s)
  obtain h t where ht: "split_on c s = h # t"
    by (cases "split_on c s") auto
  with Cons show ?case by (auto split: if_splits)
qed

lemma split_on_subset: "x \<in> set (split_on c s) \<Longrightarrow> y \<in> set x \<Longrightarrow> y \<in> set s"
proof (induction s arbitrary: x)
  case Nil
  then show ?case by simp
next
  case (Cons a s)
  obtain h t where ht: "split_on c s = h # t"
    by (cases "split_on c s") auto
  with Cons.prems Cons.IH [of h] Cons.IH [of x] show ?case
    by (auto split: if_splits)
qed

lemma split_on_id: "c \<notin> set s \<Longrightarrow> split_on c s = [s]"
  by (induction s) auto

lemma split_on_append:
  "c \<notin> set x \<Longrightarrow> split_on c (x @ c # ys) = x # split_on c ys"
  by (induction x) auto

lemma split_on_joinWith:
  "segs \<noteq> [] \<Longrightarrow> \<forall>s\<in>set segs. c \<notin> set s \<Longrightarrow> split_on c (joinWith [c] segs) = segs"
proof (induction "[c]" segs rule: joinWith.induct)
  case 1
  then show ?case by simp
next
  case (2 x)
  then show ?case by (simp add: split_on_id)
next
  case (3 x y zs)
  then show ?case by (simp add: split_on_append)
qed


section \<open>Normalisation of paths\<close>

text \<open>What a segment kept by \<^const>\<open>normalizePath\<close> looks like.\<close>

definition cleanSegment :: "string \<Rightarrow> bool" where
  "cleanSegment s \<longleftrightarrow>
     s \<noteq> [] \<and> s \<noteq> ''.'' \<and> s \<noteq> ''..'' \<and> trimmed s \<and>
     CHR ''/'' \<notin> set s \<and> CHR 0x5C \<notin> set s"

lemma trim_Nil [simp]: "trim [] = []"
  by (simp add: trim_def)

lemma normalizeStep_clean:
  assumes "\<forall>s\<in>set acc. cleanSegment s"
    and "CHR ''/'' \<notin> set piece" and "CHR 0x5C \<notin> set piece"
  shows "\<forall>s\<in>set (normalizeStep acc piece). cleanSegment s"
proof -
  have "cleanSegment (trim piece)"
    if "trim piece \<noteq> []" "trim piece \<noteq> ''.''" "trim piece \<noteq> ''..''"
    using that assms(2,3) trim_trimmed [of piece] set_trim [of _ piece]
    by (auto simp: cleanSegment_def)
  with assms(1) show ?thesis
    by (auto simp: normalizeStep_def Let_def dest: in_set_butlastD)
qed

lemma foldl_normalizeStep_clean:
  "\<forall>s\<in>set acc. cleanSegment s \<Longrightarrow>
   \<forall>p\<in>set pieces. CHR ''/'' \<notin> set p \<and> CHR 0x5C \<notin> set p \<Longrightarrow>
   \<forall>s\<in>set (foldl normalizeStep acc pieces). cleanSegment s"
proof (induction pieces arbitrary: acc)
  case Nil
  then show ?case by simp
next
  case (Cons p ps)
  have "\<forall>s\<in>set (normalizeStep acc p). cleanSegment s"
    using Cons.prems by (intro normalizeStep_clean) auto
  then show ?case using Cons.IH Cons.prems(2) by simp
qed

lemma replaceBackslashes_no_backslash: "CHR 0x5C \<notin> set (replaceBackslashes s)"
  by (auto simp: replaceBackslashes_def)

lemma replaceBackslashes_id: "CHR 0x5C \<notin> set s \<Longrightarrow> replaceBackslashes s = s"
  by (induction s) (auto simp: replaceBackslashes_def)

lemma normalizeSegments_clean: "\<forall>s\<in>set (normalizeSegments p). cleanSegment s"
  unfolding normalizeSegments_def
proof (rule foldl_normalizeStep_clean)
  show "\<forall>s\<in>set []. cleanSegment s" by simp
  show "\<forall>q\<in>set (split_on CHR ''/'' (replaceBackslashes p)).
          CHR ''/'' \<notin> set q \<and> CHR 0x5C \<notin> set q"
    using split_on_no_sep split_on_subset replaceBackslashes_no_backslash by blast
qed

lemma normalizeStep_cleanSegment:
  "cleanSegment s \<Longrightarrow> normalizeStep acc s = acc @ [s]"
  by (simp add: normalizeStep_def cleanSegment_def trimmed_trim)

lemma foldl_normalizeStep_append:
  "\<forall>s\<in>set segs. cleanSegment s \<Longrightarrow> foldl normalizeStep acc segs = acc @ segs"
  by (induction segs arbitrary: acc) (simp_all add: normalizeStep_cleanSegment)

lemma normalizeStep_Nil [simp]: "normalizeStep acc [] = acc"
  by (simp add: normalizeStep_def)

lemma set_joinWith:
  "x \<in> set (joinWith sep segs) \<Longrightarrow> x \<in> set sep \<or> (\<exists>s\<in>set segs. x \<in> set s)"
  by (induction sep segs rule: joinWith.induct) auto

lemma normalizeSegments_renderPath:
  assumes "\<forall>s\<in>set segs. cleanSegment s"
  shows "normalizeSegments (renderPath segs) = segs"
proof (cases "segs = []")
  case True
  then show ?thesis
    by (simp add: normalizeSegments_def renderPath_def replaceBackslashes_def)
next
  case False
  have nb: "CHR 0x5C \<notin> set (renderPath segs)"
    using assms False set_joinWith [of "CHR 0x5C" "''/''" segs]
    by (auto simp: renderPath_def cleanSegment_def)
  have "split_on CHR ''/'' (renderPath segs) = [] # segs"
    using assms False split_on_joinWith [of segs "CHR ''/''"]
    by (simp add: renderPath_def cleanSegment_def)
  then show ?thesis
    using assms
    by (simp add: normalizeSegments_def replaceBackslashes_id [OF nb]
        foldl_normalizeStep_append)
qed

lemma normalizePath_idem: "normalizePath (normalizePath p) = normalizePath p"
  by (simp add: normalizePath_def normalizeSegments_renderPath normalizeSegments_clean)

lemma foldl_normalizeStep_root:
  "\<forall>p\<in>set pieces. trim p \<in> {[], ''.'', ''..''} \<Longrightarrow> foldl normalizeStep [] pieces = []"
  by (induction pieces) (auto simp: normalizeStep_def)

lemma normalizePath_segments:
  "normalizePath p = ''/'' \<or>
   (\<forall>seg\<in>set (split_on CHR ''/'' (tl (normalizePath p))).
      seg \<noteq> [] \<and> seg \<noteq> ''.'' \<and> seg \<noteq> ''..'')"
proof (cases "normalizeSegments p = []")
  case True
  then show ?thesis by (simp add: normalizePath_def renderPath_def)
next
  case False
  have c: "\<forall>s\<in>set (normalizeSegments p). cleanSegment s"
    by (rule normalizeSegments_clean)
  have "split_on CHR ''/'' (tl (normalizePath p)) = normalizeSegments p"
    using c False split_on_joinWith [of "normalizeSegments p" "CHR ''/''"]
    by (simp add: normalizePath_def renderPath_def cleanSegment_def)
  with c show ?thesis by (simp add: cleanSegment_def)
qed

lemma hd_normalizePath: "hd (normalizePath p) = CHR ''/''"
  by (simp add: normalizePath_def renderPath_def)

text \<open>
  C6. \<^const>\<open>normalizePath\<close> is idempotent. Its result starts with a slash and is
  either the root \<^verbatim>\<open>/\<close> or a slash followed by segments none of which is empty,
  \<^verbatim>\<open>.\<close> or \<^verbatim>\<open>..\<close>. A path all of whose pieces are blank, \<^verbatim>\<open>.\<close> or
  \<^verbatim>\<open>..\<close> (so every pure sequence of \<^verbatim>\<open>..\<close> from the root) normalises to the root.
\<close>

theorem normalizePath_idempotent_clean:
  "normalizePath (normalizePath p) = normalizePath p \<and>
   hd (normalizePath p) = CHR ''/'' \<and>
   (normalizePath p = ''/'' \<or>
    (\<forall>seg\<in>set (split_on CHR ''/'' (tl (normalizePath p))).
       seg \<noteq> [] \<and> seg \<noteq> ''.'' \<and> seg \<noteq> ''..'')) \<and>
   ((\<forall>piece\<in>set (split_on CHR ''/'' (replaceBackslashes p)).
       trim piece \<in> {[], ''.'', ''..''}) \<longrightarrow> normalizePath p = ''/'')"
  using normalizePath_idem [of p] hd_normalizePath [of p] normalizePath_segments [of p]
    foldl_normalizeStep_root [of "split_on CHR ''/'' (replaceBackslashes p)"]
  by (simp add: normalizePath_def normalizeSegments_def renderPath_def)

text \<open>The theorem at a path with blanks, dots and empty pieces, and at a pure \<^verbatim>\<open>..\<close> path.\<close>

theorem normalizePath_idempotent_clean_witness:
  "normalizePath (normalizePath ''a/./b/../ c //d'') = ''/a/c/d'' \<and>
   normalizePath ''a/./b/../ c //d'' = ''/a/c/d'' \<and>
   split_on CHR ''/'' (tl (normalizePath ''a/./b/../ c //d'')) = [''a'', ''c'', ''d''] \<and>
   normalizePath ''/../.. /..'' = ''/''"
  using normalizePath_idempotent_clean [of "''a/./b/../ c //d''"]
    normalizePath_idempotent_clean [of "''/../.. /..''"]
  by (simp add: normalizePath_def normalizeSegments_def renderPath_def
      replaceBackslashes_def normalizeStep_def trim_def isWhiteSpace_def)


section \<open>Parent, leaf name and join\<close>

text \<open>The pieces that \<^const>\<open>normalizePath\<close> iterates over, for one piece of the path.\<close>

definition subPieces :: "string \<Rightarrow> string list" where
  "subPieces x = split_on CHR ''/'' (replaceBackslashes x)"

lemma subPieces_nonempty [simp]: "subPieces x \<noteq> []"
  by (simp add: subPieces_def)

lemma split_on_Cons_sep: "split_on c (c # xs) = [] # split_on c xs"
  by simp

lemma split_on_Cons_other:
  "x \<noteq> c \<Longrightarrow> split_on c (x # xs) = (x # hd (split_on c xs)) # tl (split_on c xs)"
  by simp

lemma subPieces_split:
  "subPieces p = concat (map subPieces (split_on CHR ''/'' p))"
proof (induction p)
  case Nil
  then show ?case by (simp add: subPieces_def replaceBackslashes_def)
next
  case (Cons x xs)
  obtain h t where ht: "split_on CHR ''/'' xs = h # t"
    by (cases "split_on CHR ''/'' xs") auto
  obtain h' t' where ht': "subPieces h = h' # t'"
    by (cases "subPieces h") auto
  have IH: "subPieces xs = subPieces h @ concat (map subPieces t)"
    using Cons.IH ht by simp
  show ?case
  proof (cases "x = CHR ''/''")
    case True
    have "subPieces (x # xs) = [] # subPieces xs"
      using True by (simp add: subPieces_def replaceBackslashes_def)
    moreover have "subPieces [] = [[]]"
      by (simp add: subPieces_def replaceBackslashes_def)
    ultimately show ?thesis using True Cons.IH by simp
  next
    case False
    note ns = this
    show ?thesis
    proof (cases "x = CHR 0x5C")
      case True
      have 1: "subPieces (x # xs) = [] # subPieces xs"
        using True by (simp add: subPieces_def replaceBackslashes_def)
      have 2: "subPieces (x # h) = [] # subPieces h"
        using True by (simp add: subPieces_def replaceBackslashes_def)
      show ?thesis using ns ht IH 1 2 by simp
    next
      case False
      have 1: "subPieces (x # xs) = (x # hd (subPieces xs)) # tl (subPieces xs)"
        using False ns by (simp add: subPieces_def replaceBackslashes_def)
      have 2: "subPieces (x # h) = (x # hd (subPieces h)) # tl (subPieces h)"
        using False ns by (simp add: subPieces_def replaceBackslashes_def)
      show ?thesis using ns ht IH 1 2 ht' by simp
    qed
  qed
qed

lemma foldl_normalizeStep_subPieces_Nil:
  "foldl normalizeStep acc (subPieces []) = acc"
  by (simp add: subPieces_def replaceBackslashes_def)

lemma foldl_concat_filter:
  "foldl normalizeStep acc (concat (map subPieces xs)) =
   foldl normalizeStep acc (concat (map subPieces (filter (\<lambda>s. s \<noteq> []) xs)))"
  by (induction xs arbitrary: acc) (simp_all add: foldl_normalizeStep_subPieces_Nil)

lemma normalizeSegments_pathSegments:
  "normalizeSegments p = foldl normalizeStep [] (concat (map subPieces (pathSegments p)))"
proof -
  have "normalizeSegments p = foldl normalizeStep [] (subPieces p)"
    by (simp add: normalizeSegments_def subPieces_def)
  also have "\<dots> = foldl normalizeStep [] (concat (map subPieces (split_on CHR ''/'' p)))"
    using subPieces_split [of p] by simp
  finally show ?thesis
    using foldl_concat_filter [of "[]" "split_on CHR ''/'' p"] by (simp add: pathSegments_def)
qed

lemma pathSegments_props:
  "s \<in> set (pathSegments p) \<Longrightarrow> s \<noteq> [] \<and> CHR ''/'' \<notin> set s"
  using split_on_no_sep by (auto simp: pathSegments_def)

lemma pathSegments_renderPath:
  assumes "\<forall>s\<in>set segs. s \<noteq> [] \<and> CHR ''/'' \<notin> set s"
  shows "pathSegments (renderPath segs) = segs"
proof (cases "segs = []")
  case True
  then show ?thesis by (simp add: pathSegments_def renderPath_def)
next
  case False
  have "split_on CHR ''/'' (renderPath segs) = [] # segs"
    using assms False split_on_joinWith [of segs "CHR ''/''"]
    by (simp add: renderPath_def)
  moreover have "filter (\<lambda>s. s \<noteq> []) segs = segs"
    using assms by (simp add: filter_id_conv)
  ultimately show ?thesis by (simp add: pathSegments_def)
qed

lemma joinWith_snoc:
  "segs \<noteq> [] \<Longrightarrow> joinWith sep (segs @ [x]) = joinWith sep segs @ sep @ x"
  by (induction sep segs rule: joinWith.induct) auto

lemma pathSegments_join:
  assumes "\<forall>s\<in>set segs. s \<noteq> [] \<and> CHR ''/'' \<notin> set s"
    and "leaf \<noteq> []" and "CHR ''/'' \<notin> set leaf"
  shows "pathSegments (renderPath segs @ ''/'' @ leaf) = segs @ [leaf]"
proof (cases "segs = []")
  case True
  then show ?thesis using assms(2,3)
    by (simp add: pathSegments_def renderPath_def split_on_id)
next
  case False
  have r: "renderPath segs @ ''/'' @ leaf = renderPath (segs @ [leaf])"
    using False by (simp add: renderPath_def joinWith_snoc)
  show ?thesis unfolding r
    using assms by (intro pathSegments_renderPath) auto
qed


lemma join_parent_leaf_segments:
  assumes "pathSegments p \<noteq> []"
  shows "joinPaths (renderPath (butlast (pathSegments p))) (last (pathSegments p)) =
         normalizePath p"
proof -
  let ?segs = "pathSegments p"
  have props: "\<forall>s\<in>set ?segs. s \<noteq> [] \<and> CHR ''/'' \<notin> set s"
    using pathSegments_props by blast
  have "pathSegments (renderPath (butlast ?segs) @ ''/'' @ last ?segs) =
        butlast ?segs @ [last ?segs]"
    using props assms by (intro pathSegments_join) (auto dest: in_set_butlastD)
  then have "pathSegments (renderPath (butlast ?segs) @ ''/'' @ last ?segs) = ?segs"
    using assms by simp
  then show ?thesis
    by (simp add: joinPaths_def normalizePath_def normalizeSegments_pathSegments)
qed

lemma nonroot_has_segments:
  assumes "normalizePath p \<noteq> ''/''"
  shows "pathSegments p \<noteq> []"
proof
  assume "pathSegments p = []"
  then have "normalizeSegments p = []"
    by (simp add: normalizeSegments_pathSegments)
  with assms show False by (simp add: normalizePath_def renderPath_def)
qed

text \<open>
  C7. A path whose normal form is not the root has a leaf name; and whenever a path has a
  leaf name (that is, a piece other than the empty string between its slashes), it has a
  parent, and joining the parent with the leaf name gives the normal form of the path.
\<close>

theorem join_parent_leaf:
  "(normalizePath p \<noteq> ''/'' \<longrightarrow> getPathLeafName p \<noteq> None) \<and>
   (\<forall>leaf. getPathLeafName p = Some leaf \<longrightarrow>
      (\<exists>parent. getParentPath p = Some parent \<and> joinPaths parent leaf = normalizePath p))"
proof (intro conjI impI allI)
  assume "normalizePath p \<noteq> ''/''"
  then have "pathSegments p \<noteq> []" by (rule nonroot_has_segments)
  then show "getPathLeafName p \<noteq> None" by (simp add: getPathLeafName_def)
next
  fix leaf
  assume leaf: "getPathLeafName p = Some leaf"
  then have segs: "pathSegments p \<noteq> []" and l: "leaf = last (pathSegments p)"
    by (auto simp: getPathLeafName_def Let_def split: if_splits)
  have "p \<noteq> ''/''" using segs by (auto simp: pathSegments_def)
  then have "getParentPath p = Some (renderPath (butlast (pathSegments p)))"
    by (simp add: getParentPath_def)
  then show "\<exists>parent. getParentPath p = Some parent \<and> joinPaths parent leaf = normalizePath p"
    using join_parent_leaf_segments [OF segs] l by simp
qed

text \<open>The theorem at a path that is not in normal form.\<close>

theorem join_parent_leaf_witness:
  "normalizePath ''/a/../b/c'' \<noteq> ''/'' \<and>
   getParentPath ''/a/../b/c'' = Some ''/a/../b'' \<and>
   getPathLeafName ''/a/../b/c'' = Some ''c'' \<and>
   joinPaths ''/a/../b'' ''c'' = ''/b/c'' \<and> normalizePath ''/a/../b/c'' = ''/b/c''"
proof -
  have ev: "normalizePath ''/a/../b/c'' = ''/b/c''"
    by (simp add: normalizePath_def normalizeSegments_def renderPath_def
      replaceBackslashes_def normalizeStep_def trim_def isWhiteSpace_def)
  have p: "getParentPath ''/a/../b/c'' = Some ''/a/../b''"
    by (simp add: getParentPath_def pathSegments_def renderPath_def)
  have l: "getPathLeafName ''/a/../b/c'' = Some ''c''"
    by (simp add: getPathLeafName_def pathSegments_def)
  from join_parent_leaf [of "''/a/../b/c''"] p l ev show ?thesis by simp
qed

section \<open>JavaScript values\<close>

text \<open>
  A number is a double. A finite double is modelled by the real number it denotes: the
  listing code tests and copies numbers, and adds file sizes, which is exact for integers
  below \<open>2^53\<close>.
\<close>

datatype jsNumber = Finite real | NaN | PosInfinity | NegInfinity

datatype jsValue =
    JUndefined
  | JNull
  | JBool bool
  | JNumber jsNumber
  | JString string
  | JArray "jsValue list"
  | JObject "(string \<times> jsValue) list"

text \<open>
  What a \<^verbatim>\<open>throw\<close> carries. \<open>DOMException name message\<close> is an instance of
  \<^verbatim>\<open>Error\<close> too; \<open>Error message\<close> stands for \<^verbatim>\<open>Error\<close> and its other
  subclasses; \<open>Thrown v\<close> is a thrown value that is no \<^verbatim>\<open>Error\<close>.
\<close>

datatype jsError = DOMException string string | Error string | Thrown jsValue

text \<open>\<^verbatim>\<open>value.key\<close> for a value that is not null or undefined; a missing key reads undefined.\<close>

definition getProp :: "jsValue \<Rightarrow> string \<Rightarrow> jsValue" where
  "getProp v key =
     (case v of
        JObject kvs \<Rightarrow> (case map_of kvs key of Some x \<Rightarrow> x | None \<Rightarrow> JUndefined)
      | _ \<Rightarrow> JUndefined)"

definition toLowerChar :: "char \<Rightarrow> char" where
  "toLowerChar c =
     (let n = of_char c :: nat in
      if (65 \<le> n \<and> n \<le> 90) \<or> (192 \<le> n \<and> n \<le> 222 \<and> n \<noteq> 215)
      then char_of (n + 32) else c)"

definition toLowerCase :: "string \<Rightarrow> string" where
  "toLowerCase s = map toLowerChar s"

text \<open>\<^verbatim>\<open>s.lastIndexOf(c)\<close>: the index of the last occurrence, or \<open>-1\<close>.\<close>

definition lastIndexOf :: "char \<Rightarrow> string \<Rightarrow> int" where
  "lastIndexOf c s =
     (if c \<in> set s
      then int (length s) - 1 - int (length (takeWhile (\<lambda>x. x \<noteq> c) (rev s)))
      else - 1)"

text \<open>\<^verbatim>\<open>hay.includes(needle)\<close>.\<close>

fun stringIncludes :: "string \<Rightarrow> string \<Rightarrow> bool" where
  "stringIncludes [] needle = (needle = [])"
| "stringIncludes (h # hs) needle =
     (take (length needle) (h # hs) = needle \<or> stringIncludes hs needle)"

definition endsWith :: "string \<Rightarrow> string \<Rightarrow> bool" where
  "endsWith s suffix \<longleftrightarrow>
     length suffix \<le> length s \<and> drop (length s - length suffix) s = suffix"

text \<open>Decimal digits of a natural number, as \<^verbatim>\<open>`${n}`\<close> prints them.\<close>

definition digitChar :: "nat \<Rightarrow> char" where
  "digitChar d = ''0123456789'' ! d"

fun showNat :: "nat \<Rightarrow> string" where
  "showNat n =
     (if n < 10 then [digitChar n] else showNat (n div 10) @ [digitChar (n mod 10)])"

declare showNat.simps [simp del]

section \<open>Listing entries (server module)\<close>

definition asString :: "jsValue \<Rightarrow> string" where
  "asString v = (case v of JString s \<Rightarrow> s | _ \<Rightarrow> [])"

definition asNumber :: "jsValue \<Rightarrow> real" where
  "asNumber v = (case v of JNumber (Finite r) \<Rightarrow> r | _ \<Rightarrow> 0)"

definition resolveExtension :: "jsValue \<Rightarrow> string \<Rightarrow> string option" where
  "resolveExtension rawExtension name =
     (let extension = trim (toLowerCase (asString rawExtension)) in
      if extension \<noteq> [] \<and> extension \<noteq> ''---'' \<and> extension \<noteq> ''%'' then Some extension
      else
        let dotIndex = lastIndexOf CHR ''.'' name in
        if dotIndex \<le> 0 \<or> dotIndex \<ge> int (length name) - 1 then None
        else Some (toLowerCase (drop (nat (dotIndex + 1)) name)))"

definition cleanItemName :: "string \<Rightarrow> string" where
  "cleanItemName name =
     (let trimmed = trim name in
      if trimmed = [] then []
      else if endsWith trimmed ''/'' then butlast trimmed else trimmed)"


text \<open>
  The parts of a parsed URL that the code reads and writes. \<open>u_protocol\<close> ends with a
  colon, as \<^verbatim>\<open>url.protocol\<close> does; \<open>u_port\<close> is empty for the scheme's default port.
  Field names of all records carry a prefix naming the record, since several records of
  the source share field names.
\<close>

record url =
  u_protocol :: string
  u_hostname :: string
  u_port :: string
  u_pathname :: string
  u_searchParams :: "(string \<times> string) list"
  u_hash :: string

text \<open>\<^verbatim>\<open>url.host\<close>.\<close>

definition urlHost :: "url \<Rightarrow> string" where
  "urlHost u = (if u_port u = [] then u_hostname u else u_hostname u @ '':'' @ u_port u)"

text \<open>\<^verbatim>\<open>url.searchParams.set(key, value)\<close> and \<^verbatim>\<open>url.searchParams.has(key)\<close>.\<close>

fun searchParamsSet :: "string \<Rightarrow> string \<Rightarrow> (string \<times> string) list \<Rightarrow> (string \<times> string) list" where
  "searchParamsSet key v [] = [(key, v)]"
| "searchParamsSet key v ((k, x) # rest) =
     (if k = key then (key, v) # filter (\<lambda>(k', _). k' \<noteq> key) rest
      else (k, x) # searchParamsSet key v rest)"

definition searchParamsHas :: "string \<Rightarrow> (string \<times> string) list \<Rightarrow> bool" where
  "searchParamsHas key params \<longleftrightarrow> key \<in> fst ` set params"

text \<open>
  The functions of the JavaScript platform that the code calls and that are not part of
  the repository. They are parameters of the model: nothing is assumed about them.
  \<open>parseUrl s\<close> is \<^verbatim>\<open>new URL(s)\<close> and \<open>resolveUrl href base\<close> is
  \<^verbatim>\<open>new URL(href, base)\<close>, \<open>None\<close> when the constructor throws;
  \<open>encodePathname\<close> is what the \<^verbatim>\<open>pathname\<close> setter stores;
  \<open>decodeURIComponent\<close> is \<open>None\<close> when it throws; \<open>parseInt10 s\<close> is
  \<^verbatim>\<open>Number.parseInt(s, 10)\<close>; \<open>formatDate ms\<close> is
  \<^verbatim>\<open>modifiedFormatter.format(new Date(ms))\<close>, \<open>None\<close> when it throws;
  \<open>collatorCompare\<close> is \<^verbatim>\<open>collator.compare\<close>.
\<close>

record platform =
  parseUrl :: "string \<Rightarrow> url option"
  resolveUrl :: "string \<Rightarrow> url \<Rightarrow> url option"
  urlToString :: "url \<Rightarrow> string"
  encodePathname :: "string \<Rightarrow> string"
  decodeURIComponent :: "string \<Rightarrow> string option"
  encodeURIComponent :: "string \<Rightarrow> string"
  parseInt10 :: "string \<Rightarrow> jsNumber"
  formatDate :: "real \<Rightarrow> string option"
  collatorCompare :: "string \<Rightarrow> string \<Rightarrow> int"

text \<open>The message of the \<^verbatim>\<open>TypeError\<close> that \<^verbatim>\<open>new URL\<close> throws.\<close>

definition invalidUrlError :: jsError where
  "invalidUrlError = Error ''Invalid URL''"

datatype entryKind = Dir | File

record InventoryEntry =
  e_kind :: entryKind
  e_name :: string
  e_href :: string
  e_size :: real
  e_modified :: string
  e_modifiedTs :: real
  e_extension :: "string option"
  e_tags :: "(string \<times> string) list"
  e_nextPath :: "string option"

record InventoryData =
  d_configured :: bool
  d_currentPath :: string
  d_parentPath :: "string option"
  d_rootPath :: string
  d_uploadUrl :: string
  d_directories :: "InventoryEntry list"
  d_files :: "InventoryEntry list"
  d_account :: string
  d_serverInfo :: string
  d_error :: "string option"
  d_totalBytes :: real

record CopypartyConnection =
  c_baseUrl :: string
  c_rootPath :: string
  c_password :: string
  c_cookie :: string
  c_timeoutMs :: real

text \<open>\<^verbatim>\<open>env\<close>: a variable that is not set reads undefined, here \<open>None\<close>.\<close>

record env =
  COPYPARTY_BASE_URL :: "string option"
  COPYPARTY_PUBLIC_BASE_URL :: "string option"
  COPYPARTY_ROOT_PATH :: "string option"
  COPYPARTY_PASSWORD :: "string option"
  COPYPARTY_COOKIE :: "string option"
  COPYPARTY_TIMEOUT_MS :: "string option"

definition DEFAULT_TIMEOUT_MS :: real where
  "DEFAULT_TIMEOUT_MS = 8000"

text \<open>\<^verbatim>\<open>value?.trim() ?? ''\<close>.\<close>

definition trimOrEmpty :: "string option \<Rightarrow> string" where
  "trimOrEmpty v = (case v of Some s \<Rightarrow> trim s | None \<Rightarrow> [])"

definition parsePositiveNumber :: "platform \<Rightarrow> string option \<Rightarrow> real option" where
  "parsePositiveNumber P v =
     (case v of
        None \<Rightarrow> None
      | Some s \<Rightarrow>
          if s = [] then None
          else (case parseInt10 P s of
                  Finite parsed \<Rightarrow> if parsed > 0 then Some parsed else None
                | _ \<Rightarrow> None))"

definition extractNameFromHref :: "platform \<Rightarrow> string \<Rightarrow> string" where
  "extractNameFromHref P rawHref =
     (if rawHref = [] then []
      else
        let withoutHash = hd (split_on CHR ''#'' rawHref);
            withoutQuery = hd (split_on CHR ''?'' withoutHash);
            withoutTrailingSlash = rev (dropWhile (\<lambda>c. c = CHR ''/'') (rev withoutQuery));
            segments = pathSegments withoutTrailingSlash;
            segment = (if segments = [] then [] else last segments)
        in if segment = [] then []
           else (case decodeURIComponent P segment of Some s \<Rightarrow> s | None \<Rightarrow> segment))"

definition buildItemHref ::
  "platform \<Rightarrow> string \<Rightarrow> string \<Rightarrow> string \<Rightarrow> string \<Rightarrow> string \<Rightarrow> entryKind \<Rightarrow> string
    \<Rightarrow> jsError + string" where
  "buildItemHref P baseUrl rootPath currentPath rawHref fallbackName kind password =
     (case parseUrl P baseUrl of
        None \<Rightarrow> Inl invalidUrlError
      | Some base0 \<Rightarrow>
          let currentDirPath = joinPaths (u_pathname base0) (joinPaths rootPath currentPath);
              base = base0\<lparr>u_pathname := encodePathname P
                       (if endsWith currentDirPath ''/'' then currentDirPath
                        else currentDirPath @ ''/'')\<rparr>;
              hrefValue =
                (if trim rawHref \<noteq> [] then trim rawHref
                 else let encoded = encodeURIComponent P fallbackName in
                      if kind = Dir then encoded @ ''/'' else encoded)
          in (case resolveUrl P hrefValue base of
                None \<Rightarrow> Inr hrefValue
              | Some resolved \<Rightarrow>
                  Inr (urlToString P
                    (if password \<noteq> [] \<and> \<not> searchParamsHas ''pw'' (u_searchParams resolved)
                     then resolved\<lparr>u_searchParams :=
                            searchParamsSet ''pw'' password (u_searchParams resolved)\<rparr>
                     else resolved))))"

definition toTagRecord :: "jsValue \<Rightarrow> (string \<times> string) list" where
  "toTagRecord v =
     (case v of
        JObject kvs \<Rightarrow> concat (map (\<lambda>(key, entry).
            case entry of JString s \<Rightarrow> [(key, s)] | _ \<Rightarrow> []) kvs)
      | _ \<Rightarrow> [])"

definition formatModifiedTimestamp :: "platform \<Rightarrow> real \<Rightarrow> string" where
  "formatModifiedTimestamp P v =
     (if v \<le> 0 then []
      else
        let epochMs = (if v > 10000000000 then v else v * 1000) in
        case formatDate P epochMs of Some s \<Rightarrow> s | None \<Rightarrow> [])"

text \<open>The \<^verbatim>\<open>context\<close> argument of \<^verbatim>\<open>mapItem\<close>.\<close>

record mapContext =
  m_currentPath :: string
  m_rootPath :: string
  m_baseUrl :: string
  m_password :: string

definition mapItem :: "platform \<Rightarrow> jsValue \<Rightarrow> entryKind \<Rightarrow> mapContext \<Rightarrow> jsError + InventoryEntry" where
  "mapItem P item kind ctx =
     (let rawName = cleanItemName (asString (getProp item ''name''));
          rawHref = asString (getProp item ''href'');
          inferredName = cleanItemName (extractNameFromHref P rawHref);
          safeName = (if rawName \<noteq> [] then rawName
                      else if inferredName \<noteq> [] then inferredName else ''unnamed'');
          modifiedTs = asNumber (getProp item ''ts'')
      in case buildItemHref P (m_baseUrl ctx) (m_rootPath ctx) (m_currentPath ctx) rawHref
                safeName kind (m_password ctx) of
           Inl err \<Rightarrow> Inl err
         | Inr resolvedHref \<Rightarrow>
             Inr \<lparr> e_kind = kind,
                   e_name = safeName,
                   e_href = resolvedHref,
                   e_size = asNumber (getProp item ''sz''),
                   e_modified = (if asString (getProp item ''dt'') \<noteq> []
                                 then asString (getProp item ''dt'')
                                 else formatModifiedTimestamp P modifiedTs),
                   e_modifiedTs = modifiedTs,
                   e_extension = resolveExtension (getProp item ''ext'') safeName,
                   e_tags = toTagRecord (getProp item ''tags''),
                   e_nextPath = (if kind = Dir then Some (joinPaths (m_currentPath ctx) safeName)
                                 else None) \<rparr>)"

text \<open>
  \<^verbatim>\<open>asItemArray\<close>: the entries of an array that are objects (arrays included, null
  excluded); anything that is not an array gives no entries.
\<close>

definition isObjectEntry :: "jsValue \<Rightarrow> bool" where
  "isObjectEntry v = (case v of JObject _ \<Rightarrow> True | JArray _ \<Rightarrow> True | _ \<Rightarrow> False)"

definition asItemArray :: "jsValue \<Rightarrow> jsValue list" where
  "asItemArray v = (case v of JArray entries \<Rightarrow> filter isObjectEntry entries | _ \<Rightarrow> [])"


section \<open>Requests to the backend (server module)\<close>

record request =
  r_url :: url
  r_method :: string
  r_headers :: "(string \<times> string) list"

text \<open>
  A response: its status, what \<^verbatim>\<open>response.text()\<close> and \<^verbatim>\<open>response.json()\<close> give
  (\<open>None\<close> when they reject).
\<close>

record response =
  s_status :: nat
  s_text :: "string option"
  s_json :: "jsValue option"

definition responseOk :: "response \<Rightarrow> bool" where
  "responseOk r \<longleftrightarrow> 200 \<le> s_status r \<and> s_status r \<le> 299"

text \<open>
  What awaiting \<^verbatim>\<open>fetch(url, init)\<close> gives: a rejection (a network failure, or the
  abort of the timeout, a \<^verbatim>\<open>DOMException\<close> named \<^verbatim>\<open>AbortError\<close>) or a response.
  The network is a function from the request to this outcome.
\<close>

datatype fetchResult = Rejected jsError | Responded response

type_synonym fetchLike = "request \<Rightarrow> fetchResult"

text \<open>
  A \<^verbatim>\<open>Headers\<close> object: names are kept in lower case, \<^verbatim>\<open>set\<close> replaces the value of
  a name. The object literals the code builds headers from have distinct keys.
\<close>

definition headersSet :: "string \<Rightarrow> string \<Rightarrow> (string \<times> string) list \<Rightarrow> (string \<times> string) list" where
  "headersSet name v hs =
     (let k = toLowerCase name in
      if k \<in> fst ` set hs then map (\<lambda>(k', x). if k' = k then (k, v) else (k', x)) hs
      else hs @ [(k, v)])"

definition headersDelete :: "string \<Rightarrow> (string \<times> string) list \<Rightarrow> (string \<times> string) list" where
  "headersDelete name hs = filter (\<lambda>(k, _). k \<noteq> toLowerCase name) hs"

definition headersGet :: "string \<Rightarrow> (string \<times> string) list \<Rightarrow> string option" where
  "headersGet name hs = map_of hs (toLowerCase name)"

definition newHeaders :: "(string \<times> string) list \<Rightarrow> (string \<times> string) list" where
  "newHeaders init = foldl (\<lambda>hs (k, v). headersSet k v hs) [] init"

record requestInit =
  i_method :: string
  i_headers :: "(string \<times> string) list"

definition getCopypartyConnection :: "platform \<Rightarrow> env \<Rightarrow> jsError + CopypartyConnection" where
  "getCopypartyConnection P ev =
     (let baseUrl = trimOrEmpty (COPYPARTY_BASE_URL ev) in
      if baseUrl = [] then Inl (Error ''Copyparty is not configured.'')
      else Inr \<lparr> c_baseUrl = baseUrl,
                 c_rootPath = normalizePath (case COPYPARTY_ROOT_PATH ev of
                                               Some p \<Rightarrow> p | None \<Rightarrow> ''/''),
                 c_password = trimOrEmpty (COPYPARTY_PASSWORD ev),
                 c_cookie = trimOrEmpty (COPYPARTY_COOKIE ev),
                 c_timeoutMs = (case parsePositiveNumber P (COPYPARTY_TIMEOUT_MS ev) of
                                  Some t \<Rightarrow> t | None \<Rightarrow> DEFAULT_TIMEOUT_MS) \<rparr>)"

definition buildScopedUrl :: "platform \<Rightarrow> CopypartyConnection \<Rightarrow> string \<Rightarrow> jsError + url" where
  "buildScopedUrl P connection targetPath =
     (let upstreamPath = joinPaths (c_rootPath connection) (normalizePath targetPath) in
      case parseUrl P (c_baseUrl connection) of
        None \<Rightarrow> Inl invalidUrlError
      | Some u0 \<Rightarrow>
          let u = u0\<lparr>u_pathname := encodePathname P (joinPaths (u_pathname u0) upstreamPath)\<rparr>
          in Inr (if c_password connection \<noteq> []
                  then u\<lparr>u_searchParams :=
                         searchParamsSet ''pw'' (c_password connection) (u_searchParams u)\<rparr>
                  else u))"

text \<open>
  The request that \<^verbatim>\<open>fetchCopyparty\<close> hands to \<^verbatim>\<open>fetch\<close>: Origin and Referer forced
  to the backend's origin, and the Cookie header merged from the configured cookie and the
  request's cookie.
\<close>

definition mergeCookies :: "string \<Rightarrow> string option \<Rightarrow> string" where
  "mergeCookies configured requestCookie =
     joinWith ''; '' (filter (\<lambda>s. s \<noteq> [])
       [configured, case requestCookie of Some c \<Rightarrow> c | None \<Rightarrow> []])"

definition fetchCopypartyRequest ::
  "CopypartyConnection \<Rightarrow> url \<Rightarrow> requestInit \<Rightarrow> string option \<Rightarrow> request" where
  "fetchCopypartyRequest connection u init requestCookie =
     (let targetOrigin = u_protocol u @ ''//'' @ urlHost u;
          headers = headersSet ''Referer'' (targetOrigin @ ''/'')
                      (headersSet ''Origin'' targetOrigin
                        (headersDelete ''referer''
                          (headersDelete ''origin'' (newHeaders (i_headers init)))));
          cookieHeader = mergeCookies (c_cookie connection) requestCookie
      in \<lparr> r_url = u,
           r_method = i_method init,
           r_headers = (if cookieHeader \<noteq> [] then headersSet ''Cookie'' cookieHeader headers
                        else headers) \<rparr>)"

definition fetchCopyparty ::
  "CopypartyConnection \<Rightarrow> fetchLike \<Rightarrow> url \<Rightarrow> requestInit \<Rightarrow> string option
    \<Rightarrow> (jsError + response) \<times> request list" where
  "fetchCopyparty connection fetch u init requestCookie =
     (let req = fetchCopypartyRequest connection u init requestCookie in
      case fetch req of
        Rejected err \<Rightarrow> (Inl err, [req])
      | Responded r \<Rightarrow> (Inr r, [req]))"

text \<open>\<^verbatim>\<open>text.replace(/\s+/g, ' ')\<close>.\<close>

function collapseWhitespace :: "string \<Rightarrow> string" where
  "collapseWhitespace [] = []"
| "collapseWhitespace (c # cs) =
     (if isWhiteSpace c then CHR '' '' # collapseWhitespace (dropWhile isWhiteSpace cs)
      else c # collapseWhitespace cs)"
  by pat_completeness auto
termination
  by (relation "measure length") (auto simp: length_dropWhile_le less_Suc_eq_le)

definition buildHttpErrorMessage :: "string \<Rightarrow> response \<Rightarrow> string" where
  "buildHttpErrorMessage prefix r =
     (let details = (case s_text r of Some t \<Rightarrow> trim (collapseWhitespace t) | None \<Rightarrow> []) in
      if details = [] then prefix @ '': HTTP '' @ showNat (s_status r) @ ''.''
      else if s_status r = 401 \<and> stringIncludes (toLowerCase details) ''move-access''
      then prefix @ '': HTTP 401. Copyparty denied move-access for this path. Grant move permission in Copyparty or set COPYPARTY_PASSWORD/COPYPARTY_COOKIE to credentials with move rights.''
      else if s_status r = 422 \<and> stringIncludes (toLowerCase details) ''unprocessable entity''
      then prefix @ '': HTTP 422. Copyparty rejected the path as invalid. For WebDAV MOVE/COPY, ensure Destination does not include query parameters.''
      else prefix @ '': HTTP '' @ showNat (s_status r) @ '' ('' @ take 220 details @ '').'')"

definition sanitizeLeafName :: "string \<Rightarrow> string \<Rightarrow> jsError + string" where
  "sanitizeLeafName v label =
     (let cleaned = trim v in
      if cleaned = [] then Inl (Error (label @ '' is required.''))
      else if cleaned = ''.'' \<or> cleaned = ''..'' then Inl (Error (label @ '' is invalid.''))
      else if CHR ''/'' \<in> set cleaned \<or> CHR 0x5C \<in> set cleaned
      then Inl (Error (label @ '' cannot include slashes.''))
      else Inr cleaned)"

definition ensureTrailingSlash :: "string \<Rightarrow> string" where
  "ensureTrailingSlash v = (if endsWith v ''/'' then v else v @ ''/'')"

text \<open>
  The mutation operations return what the promise settles to (\<open>Inl\<close> the rejection)
  together with the requests they issued to the backend, in order.
\<close>

definition moveScopedPath ::
  "platform \<Rightarrow> CopypartyConnection \<Rightarrow> fetchLike \<Rightarrow> string \<Rightarrow> string \<Rightarrow> string option \<Rightarrow> string
    \<Rightarrow> (jsError + unit) \<times> request list" where
  "moveScopedPath P connection fetch sourcePath destinationPath requestCookie errorPrefix =
     (case buildScopedUrl P connection sourcePath of
        Inl err \<Rightarrow> (Inl err, [])
      | Inr sourceUrl \<Rightarrow>
          (case buildScopedUrl P connection destinationPath of
             Inl err \<Rightarrow> (Inl err, [])
           | Inr destinationUrl0 \<Rightarrow>
               let destinationUrl = destinationUrl0\<lparr>u_searchParams := [], u_hash := []\<rparr> in
               (case fetchCopyparty connection fetch sourceUrl
                       \<lparr> i_method = ''MOVE'',
                         i_headers = [(''Destination'', urlToString P destinationUrl),
                                      (''Overwrite'', ''T'')] \<rparr> requestCookie of
                  (Inl err, reqs) \<Rightarrow> (Inl err, reqs)
                | (Inr r, reqs) \<Rightarrow>
                    if \<not> responseOk r
                    then (Inl (Error (buildHttpErrorMessage errorPrefix r)), reqs)
                    else (Inr (), reqs))))"

definition deleteInventoryPath ::
  "platform \<Rightarrow> env \<Rightarrow> fetchLike \<Rightarrow> string \<Rightarrow> string option \<Rightarrow> (jsError + unit) \<times> request list" where
  "deleteInventoryPath P ev fetch targetPath requestCookie =
     (case getCopypartyConnection P ev of
        Inl err \<Rightarrow> (Inl err, [])
      | Inr connection \<Rightarrow>
          let normalizedPath = normalizePath targetPath in
          if normalizedPath = ''/'' then (Inl (Error ''Cannot delete root path.''), [])
          else
            (case buildScopedUrl P connection normalizedPath of
               Inl err \<Rightarrow> (Inl err, [])
             | Inr u \<Rightarrow>
                 (case fetchCopyparty connection fetch u
                         \<lparr> i_method = ''DELETE'', i_headers = [] \<rparr> requestCookie of
                    (Inl err, reqs) \<Rightarrow> (Inl err, reqs)
                  | (Inr r, reqs) \<Rightarrow>
                      if \<not> responseOk r
                      then (Inl (Error (buildHttpErrorMessage ''Delete failed'' r)), reqs)
                      else (Inr (), reqs))))"

definition renameInventoryPath ::
  "platform \<Rightarrow> env \<Rightarrow> fetchLike \<Rightarrow> string \<Rightarrow> string \<Rightarrow> string option
    \<Rightarrow> (jsError + unit) \<times> request list" where
  "renameInventoryPath P ev fetch targetPath newName requestCookie =
     (case getCopypartyConnection P ev of
        Inl err \<Rightarrow> (Inl err, [])
      | Inr connection \<Rightarrow>
          let normalizedPath = normalizePath targetPath in
          if normalizedPath = ''/'' then (Inl (Error ''Cannot rename root path.''), [])
          else
            (case sanitizeLeafName newName ''New name'' of
               Inl err \<Rightarrow> (Inl err, [])
             | Inr safeName \<Rightarrow>
                 (case getParentPath normalizedPath of
                    None \<Rightarrow> (Inl (Error ''Cannot rename root path.''), [])
                  | Some parentPath \<Rightarrow>
                      let destinationPath = joinPaths parentPath safeName in
                      if destinationPath = normalizedPath then (Inr (), [])
                      else moveScopedPath P connection fetch normalizedPath destinationPath
                             requestCookie ''Rename failed'')))"

definition moveInventoryPath ::
  "platform \<Rightarrow> env \<Rightarrow> fetchLike \<Rightarrow> string \<Rightarrow> string \<Rightarrow> string option
    \<Rightarrow> (jsError + unit) \<times> request list" where
  "moveInventoryPath P ev fetch targetPath destinationPath requestCookie =
     (case getCopypartyConnection P ev of
        Inl err \<Rightarrow> (Inl err, [])
      | Inr connection \<Rightarrow>
          let normalizedPath = normalizePath targetPath in
          if normalizedPath = ''/'' then (Inl (Error ''Cannot move root path.''), [])
          else
            (case getPathLeafName normalizedPath of
               None \<Rightarrow> (Inl (Error ''Invalid source path.''), [])
             | Some sourceName \<Rightarrow>
                 if sourceName = [] then (Inl (Error ''Invalid source path.''), [])
                 else
                   let normalizedDestinationDirectory = normalizePath destinationPath;
                       resolvedDestinationPath =
                         joinPaths normalizedDestinationDirectory sourceName
                   in if resolvedDestinationPath = normalizedPath then (Inr (), [])
                      else moveScopedPath P connection fetch normalizedPath
                             resolvedDestinationPath requestCookie ''Move failed''))"

definition createInventoryDirectory ::
  "platform \<Rightarrow> env \<Rightarrow> fetchLike \<Rightarrow> string \<Rightarrow> string \<Rightarrow> string option
    \<Rightarrow> (jsError + unit) \<times> request list" where
  "createInventoryDirectory P ev fetch parentPath folderName requestCookie =
     (case getCopypartyConnection P ev of
        Inl err \<Rightarrow> (Inl err, [])
      | Inr connection \<Rightarrow>
          (case sanitizeLeafName folderName ''Folder name'' of
             Inl err \<Rightarrow> (Inl err, [])
           | Inr safeFolderName \<Rightarrow>
               let scopedPath = joinPaths (normalizePath parentPath) safeFolderName in
               (case buildScopedUrl P connection scopedPath of
                  Inl err \<Rightarrow> (Inl err, [])
                | Inr u0 \<Rightarrow>
                    let u = u0\<lparr>u_pathname :=
                              encodePathname P (ensureTrailingSlash (u_pathname u0))\<rparr> in
                    (case fetchCopyparty connection fetch u
                            \<lparr> i_method = ''MKCOL'', i_headers = [] \<rparr> requestCookie of
                       (Inl err, reqs) \<Rightarrow> (Inl err, reqs)
                     | (Inr r, reqs) \<Rightarrow>
                         if responseOk r then (Inr (), reqs)
                         else if s_status r = 405 \<or> s_status r = 409
                         then (Inl (Error ''Folder already exists.''), reqs)
                         else (Inl (Error (buildHttpErrorMessage ''Create folder failed'' r)),
                               reqs)))))"


section \<open>Example environment\<close>

text \<open>
  A platform, a configuration and a network for evaluating the model at concrete inputs.
  The URL parser is a table of the URLs that the examples use, with the parts that
  \<^verbatim>\<open>new URL\<close> gives for them.
\<close>

definition exampleUrls :: "(string \<times> url) list" where
  "exampleUrls =
     [(''http://files.example.com:3923'',
         \<lparr> u_protocol = ''http:'', u_hostname = ''files.example.com'', u_port = ''3923'',
           u_pathname = ''/'', u_searchParams = [], u_hash = [] \<rparr>),
      (''http://files.example.com:5173/api/files'',
         \<lparr> u_protocol = ''http:'', u_hostname = ''files.example.com'', u_port = ''5173'',
           u_pathname = ''/api/files'', u_searchParams = [], u_hash = [] \<rparr>),
      (''https://files.example.com:3923/api/files'',
         \<lparr> u_protocol = ''https:'', u_hostname = ''files.example.com'', u_port = ''3923'',
           u_pathname = ''/api/files'', u_searchParams = [], u_hash = [] \<rparr>),
      (''http://files.example.com:3923/api/files'',
         \<lparr> u_protocol = ''http:'', u_hostname = ''files.example.com'', u_port = ''3923'',
           u_pathname = ''/api/files'', u_searchParams = [], u_hash = [] \<rparr>),
      (''http://other.example.org/api/files'',
         \<lparr> u_protocol = ''http:'', u_hostname = ''other.example.org'', u_port = [],
           u_pathname = ''/api/files'', u_searchParams = [], u_hash = [] \<rparr>)]"

definition examplePlatform :: platform where
  "examplePlatform =
     \<lparr> parseUrl = map_of exampleUrls,
       resolveUrl = (\<lambda>href base. None),
       urlToString = (\<lambda>u. u_protocol u @ ''//'' @ urlHost u @ u_pathname u),
       encodePathname = (\<lambda>p. p),
       decodeURIComponent = Some,
       encodeURIComponent = (\<lambda>s. s),
       parseInt10 = (\<lambda>s. NaN),
       formatDate = (\<lambda>ms. None),
       collatorCompare = (\<lambda>a b. 0) \<rparr>"

definition exampleEnv :: env where
  "exampleEnv =
     \<lparr> COPYPARTY_BASE_URL = Some ''http://files.example.com:3923'',
       COPYPARTY_PUBLIC_BASE_URL = None,
       COPYPARTY_ROOT_PATH = None,
       COPYPARTY_PASSWORD = None,
       COPYPARTY_COOKIE = Some ''cppwd=base'',
       COPYPARTY_TIMEOUT_MS = None \<rparr>"

text \<open>A backend that answers every request with 201 and an empty body.\<close>

definition exampleFetch :: fetchLike where
  "exampleFetch req = Responded \<lparr> s_status = 201, s_text = Some [], s_json = None \<rparr>"

section \<open>Mutations and the root path\<close>












lemma example_connection:
  "getCopypartyConnection examplePlatform exampleEnv =
     Inr \<lparr> c_baseUrl = ''http://files.example.com:3923'', c_rootPath = ''/'',
           c_password = [], c_cookie = ''cppwd=base'', c_timeoutMs = 8000 \<rparr>"
  by code_simp




section \<open>The action endpoint\<close>

text \<open>
  The inbound request of the endpoint: its URL, its Cookie header and what
  \<^verbatim>\<open>request.json()\<close> gives (\<open>None\<close> when it rejects).
\<close>

record actionRequest =
  q_url :: string
  q_cookie :: "string option"
  q_json :: "jsValue option"

record actionResponse =
  a_ok :: bool
  a_error :: "string option"
  a_status :: nat

text \<open>\<^verbatim>\<open>asString\<close> of the endpoint, which trims.\<close>

definition asTrimmedString :: "jsValue \<Rightarrow> string" where
  "asTrimmedString v = (case v of JString s \<Rightarrow> trim s | _ \<Rightarrow> [])"

text \<open>\<^verbatim>\<open>resolveErrorMessage\<close> of the endpoint.\<close>

definition resolveActionErrorMessage :: "jsError \<Rightarrow> string" where
  "resolveActionErrorMessage err =
     (case err of
        Error m \<Rightarrow> if m \<noteq> [] then m else ''Unexpected file operation failure.''
      | DOMException n m \<Rightarrow> if m \<noteq> [] then m else ''Unexpected file operation failure.''
      | Thrown v \<Rightarrow> ''Unexpected file operation failure.'')"

definition isLikelyClientError :: "string \<Rightarrow> bool" where
  "isLikelyClientError message =
     (let lower = toLowerCase message in
      stringIncludes lower ''required'' \<or> stringIncludes lower ''invalid'' \<or>
      stringIncludes lower ''cannot'' \<or> stringIncludes lower ''exists'' \<or>
      stringIncludes lower ''not configured'' \<or> stringIncludes lower ''denied'' \<or>
      stringIncludes lower ''http 401'' \<or> stringIncludes lower ''http 403'')"

definition shouldForwardRequestCookies :: "platform \<Rightarrow> string \<Rightarrow> string option \<Rightarrow> bool" where
  "shouldForwardRequestCookies P requestUrl copypartyBaseUrl =
     (case copypartyBaseUrl of
        None \<Rightarrow> False
      | Some baseUrl \<Rightarrow>
          if baseUrl = [] then False
          else (case parseUrl P requestUrl of
                  None \<Rightarrow> False
                | Some requestOrigin \<Rightarrow>
                    (case parseUrl P baseUrl of
                       None \<Rightarrow> False
                     | Some copypartyOrigin \<Rightarrow>
                         u_protocol requestOrigin = u_protocol copypartyOrigin \<and>
                         u_hostname requestOrigin = u_hostname copypartyOrigin)))"

definition jsonError :: "string \<Rightarrow> nat \<Rightarrow> actionResponse" where
  "jsonError message st = \<lparr> a_ok = False, a_error = Some message, a_status = st \<rparr>"

definition jsonOk :: actionResponse where
  "jsonOk = \<lparr> a_ok = True, a_error = None, a_status = 200 \<rparr>"

text \<open>The \<^verbatim>\<open>try\<close>/\<^verbatim>\<open>catch\<close> around an operation of the endpoint.\<close>

definition respond :: "(jsError + unit) \<times> request list \<Rightarrow> (jsError + actionResponse) \<times> request list" where
  "respond outcome =
     (case outcome of
        (Inr u, reqs) \<Rightarrow> (Inr jsonOk, reqs)
      | (Inl err, reqs) \<Rightarrow>
          let message = resolveActionErrorMessage err in
          (Inr (jsonError message (if isLikelyClientError message then 400 else 502)), reqs))"

text \<open>
  The cookie that the endpoint hands to the operations: the inbound Cookie header when
  \<^const>\<open>shouldForwardRequestCookies\<close> holds, the empty string otherwise.
\<close>

definition forwardedCookie :: "platform \<Rightarrow> env \<Rightarrow> actionRequest \<Rightarrow> string" where
  "forwardedCookie P ev q =
     (if shouldForwardRequestCookies P (q_url q) (map_option trim (COPYPARTY_BASE_URL ev))
      then (case q_cookie q of Some c \<Rightarrow> c | None \<Rightarrow> [])
      else [])"

text \<open>
  The handler. Reading \<^verbatim>\<open>payload.action\<close> of a null payload throws outside the
  \<^verbatim>\<open>try\<close>, so the handler rejects.
\<close>

definition POST :: "platform \<Rightarrow> env \<Rightarrow> fetchLike \<Rightarrow> actionRequest
    \<Rightarrow> (jsError + actionResponse) \<times> request list" where
  "POST P ev fetch q =
     (case q_json q of
        None \<Rightarrow> (Inr (jsonError ''Invalid JSON body.'' 400), [])
      | Some payload \<Rightarrow>
          if payload = JNull \<or> payload = JUndefined
          then (Inl (Error ''Cannot read properties of null (reading 'action')''), [])
          else
            let action = asTrimmedString (getProp payload ''action'');
                requestCookie = forwardedCookie P ev q
            in
            if action = ''delete'' then
              (let path = asTrimmedString (getProp payload ''path'') in
               if path = [] then (Inr (jsonError ''Path is required.'' 400), [])
               else respond (deleteInventoryPath P ev fetch path (Some requestCookie)))
            else if action = ''rename'' then
              (let path = asTrimmedString (getProp payload ''path'');
                   newName = asTrimmedString (getProp payload ''newName'') in
               if path = [] then (Inr (jsonError ''Path is required.'' 400), [])
               else if newName = [] then (Inr (jsonError ''New name is required.'' 400), [])
               else respond (renameInventoryPath P ev fetch path newName (Some requestCookie)))
            else if action = ''mkdir'' then
              (let parentPath = asTrimmedString (getProp payload ''path'');
                   folderName = asTrimmedString (getProp payload ''name'') in
               if parentPath = [] then (Inr (jsonError ''Parent path is required.'' 400), [])
               else if folderName = []
               then (Inr (jsonError ''Folder name is required.'' 400), [])
               else respond (createInventoryDirectory P ev fetch parentPath folderName
                               (Some requestCookie)))
            else if action = ''move'' then
              (let path = asTrimmedString (getProp payload ''path'');
                   destinationPath = asTrimmedString (getProp payload ''destinationPath'') in
               if path = [] then (Inr (jsonError ''Path is required.'' 400), [])
               else if destinationPath = []
               then (Inr (jsonError ''Destination path is required.'' 400), [])
               else respond (moveInventoryPath P ev fetch path destinationPath
                               (Some requestCookie)))
            else (Inr (jsonError ''Unknown action.'' 400), []))"


section \<open>Cookies sent to the backend\<close>

lemma map_of_replace_other:
  "b \<noteq> a \<Longrightarrow>
   map_of (map (\<lambda>(k', x). if k' = a then (a, v) else (k', x)) hs) b = map_of hs b"
  by (induction hs) (simp_all add: case_prod_beta)

lemma map_of_replace_same:
  "a \<in> fst ` set hs \<Longrightarrow>
   map_of (map (\<lambda>(k', x). if k' = a then (a, v) else (k', x)) hs) a = Some v"
  by (induction hs) (auto simp: case_prod_beta)

lemma map_of_replace:
  "a \<in> fst ` set hs \<Longrightarrow>
   map_of (map (\<lambda>(k', x). if k' = a then (a, v) else (k', x)) hs) b =
     (if b = a then Some v else map_of hs b)"
  by (simp add: map_of_replace_other map_of_replace_same)

lemma headersGet_headersSet:
  "headersGet k (headersSet k' v hs) =
     (if toLowerCase k = toLowerCase k' then Some v else headersGet k hs)"
proof (cases "toLowerCase k' \<in> fst ` set hs")
  case True
  then show ?thesis
    by (simp add: headersGet_def headersSet_def Let_def map_of_replace)
next
  case False
  then have "map_of hs (toLowerCase k') = None"
    by (simp add: map_of_eq_None_iff)
  with False show ?thesis
    by (simp add: headersGet_def headersSet_def Let_def map_add_def split: option.splits)
qed

lemma headersGet_headersDelete:
  "headersGet k (headersDelete k' hs) =
     (if toLowerCase k = toLowerCase k' then None else headersGet k hs)"
  by (induction hs) (auto simp: headersGet_def headersDelete_def)

lemma lower_cookie: "toLowerCase ''cookie'' = ''cookie''" "toLowerCase ''Cookie'' = ''cookie''"
  "toLowerCase ''Origin'' = ''origin''" "toLowerCase ''origin'' = ''origin''"
  "toLowerCase ''Referer'' = ''referer''" "toLowerCase ''referer'' = ''referer''"
  "toLowerCase ''Destination'' = ''destination''" "toLowerCase ''Overwrite'' = ''overwrite''"
  by code_simp+

text \<open>The Cookie header of a request built by \<^const>\<open>fetchCopypartyRequest\<close>.\<close>

definition cookieHeaderFor :: "string \<Rightarrow> string option \<Rightarrow> string option" where
  "cookieHeaderFor configured requestCookie =
     (if mergeCookies configured requestCookie \<noteq> []
      then Some (mergeCookies configured requestCookie) else None)"

lemma fetchCopypartyRequest_cookie:
  assumes "headersGet ''cookie'' (newHeaders (i_headers init)) = None"
  shows "headersGet ''cookie'' (r_headers (fetchCopypartyRequest connection u init ck)) =
         cookieHeaderFor (c_cookie connection) ck"
  using assms
  by (simp add: fetchCopypartyRequest_def Let_def cookieHeaderFor_def headersGet_headersSet
      headersGet_headersDelete lower_cookie)

lemma newHeaders_no_cookie:
  "headersGet ''cookie'' (newHeaders []) = None"
  "headersGet ''cookie'' (newHeaders [(''Destination'', d), (''Overwrite'', ''T'')]) = None"
  by (simp_all add: newHeaders_def headersGet_headersSet lower_cookie)
     (simp_all add: headersGet_def)

lemma fetchCopyparty_eq:
  "fetchCopyparty connection fetch u init ck = (res, reqs) \<Longrightarrow>
   reqs = [fetchCopypartyRequest connection u init ck]"
  by (auto simp: fetchCopyparty_def Let_def split: fetchResult.splits)

lemma connection_cookie:
  "getCopypartyConnection P ev = Inr connection \<Longrightarrow>
   c_cookie connection = trimOrEmpty (COPYPARTY_COOKIE ev)"
  by (auto simp: getCopypartyConnection_def Let_def split: if_splits)

lemma moveScopedPath_cookie:
  assumes "req \<in> set (snd (moveScopedPath P connection fetch src dst ck pre))"
  shows "headersGet ''cookie'' (r_headers req) = cookieHeaderFor (c_cookie connection) ck"
  using assms
  by (auto simp: moveScopedPath_def Let_def fetchCopypartyRequest_cookie newHeaders_no_cookie
      split: sum.splits prod.splits if_splits dest!: fetchCopyparty_eq)

lemma deleteInventoryPath_cookie:
  assumes "req \<in> set (snd (deleteInventoryPath P ev fetch path ck))"
  shows "headersGet ''cookie'' (r_headers req) =
         cookieHeaderFor (trimOrEmpty (COPYPARTY_COOKIE ev)) ck"
  using assms
  by (auto simp: deleteInventoryPath_def Let_def fetchCopypartyRequest_cookie
      newHeaders_no_cookie connection_cookie
      split: sum.splits prod.splits if_splits dest!: fetchCopyparty_eq)

lemma createInventoryDirectory_cookie:
  assumes "req \<in> set (snd (createInventoryDirectory P ev fetch parent name ck))"
  shows "headersGet ''cookie'' (r_headers req) =
         cookieHeaderFor (trimOrEmpty (COPYPARTY_COOKIE ev)) ck"
  using assms
  by (auto simp: createInventoryDirectory_def Let_def fetchCopypartyRequest_cookie
      newHeaders_no_cookie connection_cookie
      split: sum.splits prod.splits if_splits dest!: fetchCopyparty_eq)

lemma renameInventoryPath_cookie:
  assumes "req \<in> set (snd (renameInventoryPath P ev fetch path newName ck))"
  shows "headersGet ''cookie'' (r_headers req) =
         cookieHeaderFor (trimOrEmpty (COPYPARTY_COOKIE ev)) ck"
  using assms
  by (auto simp: renameInventoryPath_def Let_def connection_cookie
      split: sum.splits option.splits if_splits dest!: moveScopedPath_cookie)

lemma moveInventoryPath_cookie:
  assumes "req \<in> set (snd (moveInventoryPath P ev fetch path dest ck))"
  shows "headersGet ''cookie'' (r_headers req) =
         cookieHeaderFor (trimOrEmpty (COPYPARTY_COOKIE ev)) ck"
  using assms
  by (auto simp: moveInventoryPath_def Let_def connection_cookie
      split: sum.splits option.splits if_splits dest!: moveScopedPath_cookie)

lemma snd_respond: "snd (respond outcome) = snd outcome"
  by (cases outcome) (auto simp: respond_def Let_def split: sum.splits)

lemma POST_cookie:
  assumes "req \<in> set (snd (POST P ev fetch q))"
  shows "headersGet ''cookie'' (r_headers req) =
         cookieHeaderFor (trimOrEmpty (COPYPARTY_COOKIE ev)) (Some (forwardedCookie P ev q))"
  using assms deleteInventoryPath_cookie renameInventoryPath_cookie
    createInventoryDirectory_cookie moveInventoryPath_cookie
  by (auto simp: POST_def Let_def snd_respond split: option.splits if_splits)

lemma shouldForward_iff:
  "shouldForwardRequestCookies P requestUrl base \<longleftrightarrow>
     (\<exists>b r c. base = Some b \<and> b \<noteq> [] \<and> parseUrl P requestUrl = Some r \<and>
        parseUrl P b = Some c \<and> u_protocol r = u_protocol c \<and> u_hostname r = u_hostname c)"
  by (auto simp: shouldForwardRequestCookies_def split: option.splits)


definition exampleDelete :: "string \<Rightarrow> actionRequest" where
  "exampleDelete requestUrl =
     \<lparr> q_url = requestUrl,
       q_cookie = Some ''session=abc'',
       q_json = Some (JObject [(''action'', JString ''delete''),
                               (''path'', JString ''/docs/a.txt'')]) \<rparr>"

text \<open>
  C3, as the code has it. The endpoint forwards the inbound Cookie header exactly when the
  backend's base URL is configured, both URLs parse, and the protocol and the hostname of
  the inbound URL equal those of the base URL; ports are not compared. Every request that
  the endpoint issues to the backend carries the configured cookie followed, when
  forwarding, by the inbound cookie, with \<^verbatim>\<open>; \<close> between them and empty parts left
  out; when not forwarding, the inbound cookie is not part of it.
\<close>

theorem action_endpoint_cookie_forwarding:
  "(shouldForwardRequestCookies P requestUrl base \<longleftrightarrow>
      (\<exists>b r c. base = Some b \<and> b \<noteq> [] \<and> parseUrl P requestUrl = Some r \<and>
         parseUrl P b = Some c \<and> u_protocol r = u_protocol c \<and>
         u_hostname r = u_hostname c)) \<and>
   (\<forall>req\<in>set (snd (POST P ev fetch q)).
      headersGet ''cookie'' (r_headers req) =
        (let baseline = trimOrEmpty (COPYPARTY_COOKIE ev);
             inbound = (case q_cookie q of Some c \<Rightarrow> c | None \<Rightarrow> [])
         in if shouldForwardRequestCookies P (q_url q)
                 (map_option trim (COPYPARTY_BASE_URL ev)) \<and> inbound \<noteq> []
            then Some (if baseline = [] then inbound else baseline @ ''; '' @ inbound)
            else if baseline = [] then None else Some baseline))"
proof (intro conjI ballI)
  show "shouldForwardRequestCookies P requestUrl base \<longleftrightarrow>
      (\<exists>b r c. base = Some b \<and> b \<noteq> [] \<and> parseUrl P requestUrl = Some r \<and>
         parseUrl P b = Some c \<and> u_protocol r = u_protocol c \<and>
         u_hostname r = u_hostname c)"
    by (rule shouldForward_iff)
next
  fix req
  assume "req \<in> set (snd (POST P ev fetch q))"
  then have "headersGet ''cookie'' (r_headers req) =
     cookieHeaderFor (trimOrEmpty (COPYPARTY_COOKIE ev)) (Some (forwardedCookie P ev q))"
    by (rule POST_cookie)
  then show "headersGet ''cookie'' (r_headers req) =
        (let baseline = trimOrEmpty (COPYPARTY_COOKIE ev);
             inbound = (case q_cookie q of Some c \<Rightarrow> c | None \<Rightarrow> [])
         in if shouldForwardRequestCookies P (q_url q)
                 (map_option trim (COPYPARTY_BASE_URL ev)) \<and> inbound \<noteq> []
            then Some (if baseline = [] then inbound else baseline @ ''; '' @ inbound)
            else if baseline = [] then None else Some baseline)"
    by (simp add: cookieHeaderFor_def mergeCookies_def forwardedCookie_def Let_def)
qed

text \<open>
  C3 as stated fails in both directions. An inbound request whose host (name and port)
  equals the backend's but whose scheme differs is not forwarded; an inbound request from
  another origin (same scheme and hostname, another port) is forwarded, and its cookie
  reaches the backend.
\<close>

theorem cookie_forwarding_counterexample:
  "map_option urlHost (parseUrl examplePlatform ''https://files.example.com:3923/api/files'')
     = Some ''files.example.com:3923'' \<and>
   map_option urlHost (parseUrl examplePlatform ''http://files.example.com:3923'')
     = Some ''files.example.com:3923'' \<and>
   \<not> shouldForwardRequestCookies examplePlatform ''https://files.example.com:3923/api/files''
       (Some ''http://files.example.com:3923'') \<and>
   map_option urlHost (parseUrl examplePlatform ''http://files.example.com:5173/api/files'')
     = Some ''files.example.com:5173'' \<and>
   shouldForwardRequestCookies examplePlatform ''http://files.example.com:5173/api/files''
       (Some ''http://files.example.com:3923'') \<and>
   map (\<lambda>req. headersGet ''cookie'' (r_headers req))
     (snd (POST examplePlatform exampleEnv exampleFetch
        (exampleDelete ''http://files.example.com:5173/api/files'')))
     = [Some ''cppwd=base; session=abc'']"
  by code_simp

text \<open>
  The theorem at a delete action: from the backend's own hostname the inbound cookie is
  appended to the configured one, from another hostname only the configured one is sent.
\<close>

theorem action_endpoint_cookie_forwarding_witness:
  "shouldForwardRequestCookies examplePlatform ''http://files.example.com:3923/api/files''
       (Some ''http://files.example.com:3923'') \<and>
   snd (POST examplePlatform exampleEnv exampleFetch
        (exampleDelete ''http://files.example.com:3923/api/files'')) \<noteq> [] \<and>
   list_all (\<lambda>req. headersGet ''cookie'' (r_headers req) = Some ''cppwd=base; session=abc'')
     (snd (POST examplePlatform exampleEnv exampleFetch
        (exampleDelete ''http://files.example.com:3923/api/files''))) \<and>
   \<not> shouldForwardRequestCookies examplePlatform ''http://other.example.org/api/files''
       (Some ''http://files.example.com:3923'') \<and>
   snd (POST examplePlatform exampleEnv exampleFetch
        (exampleDelete ''http://other.example.org/api/files'')) \<noteq> [] \<and>
   list_all (\<lambda>req. headersGet ''cookie'' (r_headers req) = Some ''cppwd=base'')
     (snd (POST examplePlatform exampleEnv exampleFetch
        (exampleDelete ''http://other.example.org/api/files'')))"
proof -
  have f1: "shouldForwardRequestCookies examplePlatform
       ''http://files.example.com:3923/api/files'' (Some ''http://files.example.com:3923'')"
    by code_simp
  have f2: "\<not> shouldForwardRequestCookies examplePlatform
       ''http://other.example.org/api/files'' (Some ''http://files.example.com:3923'')"
    by code_simp
  have n1: "snd (POST examplePlatform exampleEnv exampleFetch
        (exampleDelete ''http://files.example.com:3923/api/files'')) \<noteq> []"
    by code_simp
  have n2: "snd (POST examplePlatform exampleEnv exampleFetch
        (exampleDelete ''http://other.example.org/api/files'')) \<noteq> []"
    by code_simp
  have e: "map_option trim (COPYPARTY_BASE_URL exampleEnv) = Some ''http://files.example.com:3923''"
    "trimOrEmpty (COPYPARTY_COOKIE exampleEnv) = ''cppwd=base''"
    "q_cookie (exampleDelete u) = Some ''session=abc''" "q_url (exampleDelete u) = u" for u
    by (simp_all add: exampleEnv_def exampleDelete_def trimOrEmpty_def trim_def isWhiteSpace_def)
  note t1 = action_endpoint_cookie_forwarding [of examplePlatform
      "''http://files.example.com:3923/api/files''" "Some ''http://files.example.com:3923''"
      exampleEnv exampleFetch "exampleDelete ''http://files.example.com:3923/api/files''"]
  note t2 = action_endpoint_cookie_forwarding [of examplePlatform
      "''http://other.example.org/api/files''" "Some ''http://files.example.com:3923''"
      exampleEnv exampleFetch "exampleDelete ''http://other.example.org/api/files''"]
  show ?thesis
    using t1 t2 f1 f2 n1 n2 by (simp add: e list_all_iff)
qed


section \<open>The listing client\<close>

text \<open>
  \<^verbatim>\<open>items.sort((a, b) => collator.compare(a.name, b.name))\<close>: a stable sort, here by
  insertion, that puts \<open>a\<close> before \<open>b\<close> when the comparison is negative.
\<close>

fun insertByName :: "(string \<Rightarrow> string \<Rightarrow> int) \<Rightarrow> InventoryEntry \<Rightarrow> InventoryEntry list
    \<Rightarrow> InventoryEntry list" where
  "insertByName cmp x [] = [x]"
| "insertByName cmp x (y # ys) =
     (if cmp (e_name x) (e_name y) \<le> 0 then x # y # ys else y # insertByName cmp x ys)"

definition sortByName :: "(string \<Rightarrow> string \<Rightarrow> int) \<Rightarrow> InventoryEntry list \<Rightarrow> InventoryEntry list" where
  "sortByName cmp xs = foldr (insertByName cmp) xs []"

text \<open>\<^verbatim>\<open>rawItems.map((item) => mapItem(item, kind, context))\<close>: the first throw ends the map.\<close>

fun mapItems :: "platform \<Rightarrow> jsValue list \<Rightarrow> entryKind \<Rightarrow> mapContext
    \<Rightarrow> jsError + InventoryEntry list" where
  "mapItems P [] kind ctx = Inr []"
| "mapItems P (item # items) kind ctx =
     (case mapItem P item kind ctx of
        Inl err \<Rightarrow> Inl err
      | Inr entry \<Rightarrow>
          (case mapItems P items kind ctx of
             Inl err \<Rightarrow> Inl err
           | Inr entries \<Rightarrow> Inr (entry # entries)))"

definition isLoopbackHost :: "string \<Rightarrow> bool" where
  "isLoopbackHost hostname =
     (let normalized = toLowerCase hostname in
      normalized = ''localhost'' \<or> normalized = ''127.0.0.1'' \<or> normalized = ''::1'' \<or>
      normalized = ''[::1]'' \<or> endsWith normalized ''.localhost'')"

definition resolvePublicBaseUrl :: "platform \<Rightarrow> env \<Rightarrow> string \<Rightarrow> string option \<Rightarrow> string" where
  "resolvePublicBaseUrl P ev baseUrl requestOrigin =
     (let explicitPublicBase = trimOrEmpty (COPYPARTY_PUBLIC_BASE_URL ev) in
      if explicitPublicBase \<noteq> [] then explicitPublicBase
      else (case requestOrigin of
              None \<Rightarrow> baseUrl
            | Some origin \<Rightarrow>
                if origin = [] then baseUrl
                else (case parseUrl P baseUrl of
                        None \<Rightarrow> baseUrl
                      | Some internal \<Rightarrow>
                          if \<not> isLoopbackHost (u_hostname internal) then baseUrl
                          else (case parseUrl P origin of
                                  None \<Rightarrow> baseUrl
                                | Some incoming \<Rightarrow>
                                    urlToString P
                                      (internal\<lparr>u_hostname := u_hostname incoming\<rparr>)))))"

definition buildListingUrl :: "platform \<Rightarrow> env \<Rightarrow> string \<Rightarrow> string \<Rightarrow> jsError + url" where
  "buildListingUrl P ev baseUrl virtualPath =
     (case parseUrl P baseUrl of
        None \<Rightarrow> Inl invalidUrlError
      | Some u0 \<Rightarrow>
          let u = u0\<lparr>u_pathname := encodePathname P (joinPaths (u_pathname u0) virtualPath)\<rparr>;
              password = trimOrEmpty (COPYPARTY_PASSWORD ev);
              u1 = (if password \<noteq> []
                    then u\<lparr>u_searchParams := searchParamsSet ''pw'' password (u_searchParams u)\<rparr>
                    else u)
          in Inr (u1\<lparr>u_searchParams := searchParamsSet ''ls'' [] (u_searchParams u1)\<rparr>))"

definition buildUploadUrl :: "platform \<Rightarrow> string \<Rightarrow> string \<Rightarrow> string \<Rightarrow> jsError + string" where
  "buildUploadUrl P baseUrl virtualPath password =
     (case parseUrl P baseUrl of
        None \<Rightarrow> Inl invalidUrlError
      | Some u0 \<Rightarrow>
          let u = u0\<lparr>u_pathname := encodePathname P (joinPaths (u_pathname u0) virtualPath)\<rparr>
          in Inr (urlToString P
                    (if password \<noteq> []
                     then u\<lparr>u_searchParams := searchParamsSet ''pw'' password (u_searchParams u)\<rparr>
                     else u)))"

text \<open>\<^verbatim>\<open>resolveErrorMessage\<close> of the listing client.\<close>

definition resolveErrorMessage :: "jsError \<Rightarrow> string" where
  "resolveErrorMessage err =
     (case err of
        DOMException n m \<Rightarrow>
          if n = ''AbortError'' then ''Copyparty request timed out.''
          else if m \<noteq> [] then m else ''Unable to load listing from Copyparty.''
      | Error m \<Rightarrow> if m \<noteq> [] then m else ''Unable to load listing from Copyparty.''
      | Thrown v \<Rightarrow> ''Unable to load listing from Copyparty.'')"

text \<open>
  The body of the \<^verbatim>\<open>try\<close> block of \<^verbatim>\<open>getInventoryData\<close>, in two parts;
  \<open>Inl\<close> is what it throws. \<open>listingFromPayload\<close> is the part after the body was
  parsed: reading \<^verbatim>\<open>payload.dirs\<close> of a null payload throws a \<^verbatim>\<open>TypeError\<close>.
  \<open>listingAttempt\<close> builds the URLs, sends the request and checks the response. The
  timer that aborts the request shows in what \<open>fetch\<close> gives.
\<close>

definition listingFromPayload ::
  "platform \<Rightarrow> jsValue \<Rightarrow> string \<Rightarrow> string \<Rightarrow> string \<Rightarrow> string \<Rightarrow> string option \<Rightarrow> string
    \<Rightarrow> jsError + InventoryData" where
  "listingFromPayload P payload publicBaseUrl password uploadUrl currentPath parentPath rootPath =
     (if payload = JNull \<or> payload = JUndefined
      then Inl (Error ''Cannot read properties of null (reading 'dirs')'')
      else
        let rawDirs = asItemArray (getProp payload ''dirs'');
            rawFiles = asItemArray (getProp payload ''files'');
            ctx = \<lparr> m_currentPath = currentPath, m_rootPath = rootPath,
                    m_baseUrl = publicBaseUrl, m_password = password \<rparr>
        in (case mapItems P rawDirs Dir ctx of
              Inl err \<Rightarrow> Inl err
            | Inr dirs \<Rightarrow>
                (case mapItems P rawFiles File ctx of
                   Inl err \<Rightarrow> Inl err
                 | Inr fs \<Rightarrow>
                     let directories = sortByName (collatorCompare P) dirs;
                         files = sortByName (collatorCompare P) fs
                     in Inr \<lparr> d_configured = True,
                           d_currentPath = currentPath,
                           d_parentPath = parentPath,
                           d_rootPath = rootPath,
                           d_uploadUrl = uploadUrl,
                           d_directories = directories,
                           d_files = files,
                           d_account = asString (getProp payload ''acct''),
                           d_serverInfo = asString (getProp payload ''srvinf''),
                           d_error = None,
                           d_totalBytes = foldl (\<lambda>sum file. sum + e_size file) 0 files \<rparr>)))"

definition listingRequest :: "env \<Rightarrow> url \<Rightarrow> request" where
  "listingRequest ev u =
     (let cookie = trimOrEmpty (COPYPARTY_COOKIE ev);
          headers = newHeaders [(''Accept'', ''application/json'')]
      in \<lparr> r_url = u, r_method = ''GET'',
           r_headers = (if cookie \<noteq> [] then headersSet ''Cookie'' cookie headers
                        else headers) \<rparr>)"

definition listingAttempt ::
  "platform \<Rightarrow> env \<Rightarrow> fetchLike \<Rightarrow> string \<Rightarrow> string \<Rightarrow> string \<Rightarrow> string \<Rightarrow> string
    \<Rightarrow> string option \<Rightarrow> string \<Rightarrow> jsError + InventoryData" where
  "listingAttempt P ev fetch baseUrl publicBaseUrl upstreamPath password currentPath parentPath
      rootPath =
     (case buildListingUrl P ev baseUrl upstreamPath of
        Inl err \<Rightarrow> Inl err
      | Inr u \<Rightarrow>
          (case buildUploadUrl P publicBaseUrl upstreamPath password of
             Inl err \<Rightarrow> Inl err
           | Inr uploadUrl \<Rightarrow>
               (case fetch (listingRequest ev u) of
                  Rejected err \<Rightarrow> Inl err
                | Responded r \<Rightarrow>
                    if \<not> responseOk r
                    then Inl (Error (''Copyparty responded with HTTP '' @
                                     showNat (s_status r) @ ''.''))
                    else
                      (case s_json r of
                         None \<Rightarrow> Inl (Error
                           ''Copyparty did not return JSON. Verify `?ls` access and credentials.'')
                       | Some payload \<Rightarrow>
                           listingFromPayload P payload publicBaseUrl password uploadUrl
                             currentPath parentPath rootPath))))"

definition getInventoryData ::
  "platform \<Rightarrow> env \<Rightarrow> fetchLike \<Rightarrow> string option \<Rightarrow> string option \<Rightarrow> jsError + InventoryData" where
  "getInventoryData P ev fetch requestedPath requestOrigin =
     (let currentPath = normalizePath (case requestedPath of Some p \<Rightarrow> p | None \<Rightarrow> ''/'');
          parentPath = getParentPath currentPath;
          rootPath = normalizePath (case COPYPARTY_ROOT_PATH ev of Some p \<Rightarrow> p | None \<Rightarrow> ''/'');
          baseUrl = trimOrEmpty (COPYPARTY_BASE_URL ev)
      in if baseUrl = []
         then Inr \<lparr> d_configured = False, d_currentPath = currentPath,
                    d_parentPath = parentPath, d_rootPath = rootPath, d_uploadUrl = [],
                    d_directories = [], d_files = [], d_account = [], d_serverInfo = [],
                    d_error = None, d_totalBytes = 0 \<rparr>
         else
           let upstreamPath = joinPaths rootPath currentPath;
               password = trimOrEmpty (COPYPARTY_PASSWORD ev);
               publicBaseUrl = resolvePublicBaseUrl P ev baseUrl requestOrigin
           in (case listingAttempt P ev fetch baseUrl publicBaseUrl upstreamPath password
                     currentPath parentPath rootPath of
                 Inr result \<Rightarrow> Inr result
               | Inl err \<Rightarrow>
                   (case buildUploadUrl P publicBaseUrl upstreamPath password of
                      Inl err' \<Rightarrow> Inl err'
                    | Inr uploadUrl \<Rightarrow>
                        Inr \<lparr> d_configured = True, d_currentPath = currentPath,
                              d_parentPath = parentPath, d_rootPath = rootPath,
                              d_uploadUrl = uploadUrl, d_directories = [], d_files = [],
                              d_account = [], d_serverInfo = [],
                              d_error = Some (resolveErrorMessage err),
                              d_totalBytes = 0 \<rparr>)))"


section \<open>Failures of the listing client\<close>














section \<open>Sizes of listing entries\<close>

text \<open>A backend whose listing holds one file, with the given \<^verbatim>\<open>sz\<close>.\<close>

definition listingFetch :: "jsValue \<Rightarrow> fetchLike" where
  "listingFetch sz req =
     Responded \<lparr> s_status = 200, s_text = None,
       s_json = Some (JObject [(''dirs'', JArray []),
                  (''files'', JArray [JObject [(''name'', JString ''a.txt''), (''sz'', sz)]])]) \<rparr>"

lemma mapItem_size:
  "mapItem P item kind ctx = Inr entry \<Longrightarrow> e_size entry = asNumber (getProp item ''sz'')"
  by (auto simp: mapItem_def Let_def split: sum.splits)

lemma asNumber_nonneg_iff:
  "0 \<le> asNumber v \<longleftrightarrow> (\<forall>r. v = JNumber (Finite r) \<longrightarrow> 0 \<le> r)"
  by (auto simp: asNumber_def split: jsValue.splits jsNumber.splits)

lemma set_insertByName: "set (insertByName cmp x ys) = insert x (set ys)"
  by (induction ys) auto

lemma set_sortByName: "set (sortByName cmp xs) = set xs"
  by (induction xs) (simp_all add: sortByName_def set_insertByName)

lemma mapItems_entries:
  "mapItems P items kind ctx = Inr entries \<Longrightarrow> entry \<in> set entries \<Longrightarrow>
   \<exists>item\<in>set items. mapItem P item kind ctx = Inr entry"
  by (induction items arbitrary: entries) (auto split: sum.splits)

lemma listingFromPayload_entries:
  assumes "listingFromPayload P payload pub pw up cur par rootp = Inr d"
    and "entry \<in> set (d_directories d) \<union> set (d_files d)"
  shows "\<exists>item kind ctx.
           item \<in> set (asItemArray (getProp payload ''dirs'')) \<union>
                  set (asItemArray (getProp payload ''files'')) \<and>
           mapItem P item kind ctx = Inr entry"
proof -
  let ?ctx = "\<lparr> m_currentPath = cur, m_rootPath = rootp, m_baseUrl = pub, m_password = pw \<rparr>"
  from assms(1) obtain dirs fs where
    dirs: "mapItems P (asItemArray (getProp payload ''dirs'')) Dir ?ctx = Inr dirs" and
    fs: "mapItems P (asItemArray (getProp payload ''files'')) File ?ctx = Inr fs" and
    d: "d_directories d = sortByName (collatorCompare P) dirs"
       "d_files d = sortByName (collatorCompare P) fs"
    by (auto simp: listingFromPayload_def Let_def split: if_splits sum.splits)
  from assms(2) d have "entry \<in> set dirs \<or> entry \<in> set fs"
    by (simp add: set_sortByName)
  then show ?thesis
  proof
    assume "entry \<in> set dirs"
    from mapItems_entries [OF dirs this] show ?thesis by blast
  next
    assume "entry \<in> set fs"
    from mapItems_entries [OF fs this] show ?thesis by blast
  qed
qed

lemma getInventoryData_entries:
  assumes "getInventoryData P ev fetch requestedPath requestOrigin = Inr d"
    and "entry \<in> set (d_directories d) \<union> set (d_files d)"
  shows "\<exists>req r payload item kind ctx.
           fetch req = Responded r \<and> s_json r = Some payload \<and>
           item \<in> set (asItemArray (getProp payload ''dirs'')) \<union>
                  set (asItemArray (getProp payload ''files'')) \<and>
           mapItem P item kind ctx = Inr entry"
proof -
  from assms obtain b pub up pw cur par rootp where
    la: "listingAttempt P ev fetch b pub up pw cur par rootp = Inr d"
    by (fastforce simp: getInventoryData_def Let_def split: if_splits sum.splits)
  then obtain req r payload upl where
    "fetch req = Responded r" "s_json r = Some payload"
    "listingFromPayload P payload pub pw upl cur par rootp = Inr d"
    by (auto simp: listingAttempt_def split: sum.splits fetchResult.splits if_splits
        option.splits)
  then show ?thesis using listingFromPayload_entries [OF _ assms(2)] by blast
qed


text \<open>
  C4, as the code has it. Every entry of a listing comes from an item of the payload's
  \<^verbatim>\<open>dirs\<close> or \<^verbatim>\<open>files\<close> array, and its size is that item's \<^verbatim>\<open>sz\<close> field when
  that is a finite number, and 0 when it is missing, not a number, or not finite. So the size
  is non-negative exactly when the item's \<^verbatim>\<open>sz\<close> is not a negative number.
\<close>

theorem listing_entry_size:
  assumes "getInventoryData P ev fetch requestedPath requestOrigin = Inr d"
    and "entry \<in> set (d_directories d) \<union> set (d_files d)"
  shows "\<exists>req r payload item.
           fetch req = Responded r \<and> s_json r = Some payload \<and>
           item \<in> set (asItemArray (getProp payload ''dirs'')) \<union>
                  set (asItemArray (getProp payload ''files'')) \<and>
           e_size entry = (case getProp item ''sz'' of JNumber (Finite x) \<Rightarrow> x | _ \<Rightarrow> 0) \<and>
           (0 \<le> e_size entry \<longleftrightarrow>
              (\<forall>x. getProp item ''sz'' = JNumber (Finite x) \<longrightarrow> 0 \<le> x))"
proof -
  from getInventoryData_entries [OF assms] obtain req r payload item kind ctx where
    f: "fetch req = Responded r" "s_json r = Some payload"
      "item \<in> set (asItemArray (getProp payload ''dirs'')) \<union>
              set (asItemArray (getProp payload ''files''))" and
    m: "mapItem P item kind ctx = Inr entry"
    by blast
  have "e_size entry = asNumber (getProp item ''sz'')" using m by (rule mapItem_size)
  then have "e_size entry = (case getProp item ''sz'' of JNumber (Finite x) \<Rightarrow> x | _ \<Rightarrow> 0) \<and>
           (0 \<le> e_size entry \<longleftrightarrow>
              (\<forall>x. getProp item ''sz'' = JNumber (Finite x) \<longrightarrow> 0 \<le> x))"
    using asNumber_nonneg_iff [of "getProp item ''sz''"] by (simp add: asNumber_def)
  with f show ?thesis by blast
qed

lemma example_listing:
  "map_sum id (\<lambda>d. (map e_name (d_files d), map e_size (d_files d), d_totalBytes d))
     (getInventoryData examplePlatform exampleEnv (listingFetch sz) None None)
   = Inr ([''a.txt''], [asNumber sz], asNumber sz)"
  by (simp add: getInventoryData_def listingAttempt_def listingFromPayload_def
      buildListingUrl_def buildUploadUrl_def resolvePublicBaseUrl_def
      examplePlatform_def exampleEnv_def exampleUrls_def listingFetch_def
      trimOrEmpty_def trim_def isWhiteSpace_def responseOk_def Let_def
      asItemArray_def isObjectEntry_def mapItem_def buildItemHref_def getProp_def
      sortByName_def cleanItemName_def asString_def endsWith_def)

text \<open>C4 as stated fails: a file whose \<^verbatim>\<open>sz\<close> is \<open>-1\<close> is listed with size \<open>-1\<close>.\<close>

theorem negative_size_counterexample:
  "map_sum id (\<lambda>d. (map e_name (d_files d), map e_size (d_files d), d_totalBytes d))
     (getInventoryData examplePlatform exampleEnv (listingFetch (JNumber (Finite (- 1))))
        None None)
   = Inr ([''a.txt''], [- 1], - 1)"
  by (simp add: example_listing asNumber_def)

text \<open>The theorem at a listing whose file has the string \<^verbatim>\<open>"12"\<close> as its \<^verbatim>\<open>sz\<close>.\<close>

theorem listing_entry_size_witness:
  "map_sum id (\<lambda>d. (map e_name (d_files d), map e_size (d_files d), d_totalBytes d))
     (getInventoryData examplePlatform exampleEnv (listingFetch (JString ''12'')) None None)
   = Inr ([''a.txt''], [0], 0)"
proof -
  let ?r = "getInventoryData examplePlatform exampleEnv (listingFetch (JString ''12'')) None None"
  have ev: "map_sum id (\<lambda>d. (map e_name (d_files d), map e_size (d_files d), d_totalBytes d)) ?r
     = Inr ([''a.txt''], [asNumber (JString ''12'')], asNumber (JString ''12''))"
    by (rule example_listing)
  then obtain d where d: "?r = Inr d" by (cases ?r) auto
  with ev obtain entry where entry: "d_files d = [entry]" by (cases "d_files d") auto
  then have mem: "entry \<in> set (d_directories d) \<union> set (d_files d)" by simp
  from listing_entry_size [OF d mem] obtain req r payload item where
    f: "listingFetch (JString ''12'') req = Responded r" "s_json r = Some payload"
      "item \<in> set (asItemArray (getProp payload ''dirs'')) \<union>
              set (asItemArray (getProp payload ''files''))"
      "e_size entry = (case getProp item ''sz'' of JNumber (Finite x) \<Rightarrow> x | _ \<Rightarrow> 0)"
    by blast
  then have "e_size entry = 0"
    by (auto simp: listingFetch_def asItemArray_def isObjectEntry_def getProp_def)
  with ev d entry show ?thesis by simp
qed


section \<open>Extensions of listing entries\<close>

lemma lastIndexOf_split:
  assumes "name = stem @ CHR ''.'' # ext" and "CHR ''.'' \<notin> set ext"
  shows "lastIndexOf CHR ''.'' name = int (length stem)"
proof -
  have "takeWhile (\<lambda>x. x \<noteq> CHR ''.'') (rev ext @ CHR ''.'' # rev stem) = rev ext"
    using assms(2) by (subst takeWhile_append2) auto
  then show ?thesis using assms(1) by (simp add: lastIndexOf_def)
qed

lemma lastIndexOf_none: "CHR ''.'' \<notin> set name \<Longrightarrow> lastIndexOf CHR ''.'' name = - 1"
  by (simp add: lastIndexOf_def)

lemma resolveExtension_explicit:
  assumes "trim (toLowerCase (asString raw)) \<notin> {[], ''---'', ''%''}"
  shows "resolveExtension raw name = Some (trim (toLowerCase (asString raw)))"
  using assms by (simp add: resolveExtension_def Let_def)

lemma resolveExtension_split:
  assumes "trim (toLowerCase (asString raw)) \<in> {[], ''---'', ''%''}"
    and "name = stem @ ''.'' @ ext" and "CHR ''.'' \<notin> set ext"
  shows "resolveExtension raw name =
           (if stem \<noteq> [] \<and> ext \<noteq> [] then Some (toLowerCase ext) else None)"
proof -
  have name: "name = stem @ CHR ''.'' # ext" using assms(2) by simp
  have idx: "lastIndexOf CHR ''.'' name = int (length stem)"
    using name assms(3) by (rule lastIndexOf_split)
  have len: "int (length name) - 1 = int (length stem) + int (length ext)"
    using name by simp
  have dr: "drop (nat (int (length stem) + 1)) name = ext"
    using name by (simp add: nat_add_distrib)
  have r: "resolveExtension raw name =
      (if int (length stem) \<le> 0 \<or> int (length stem) + int (length ext) \<le> int (length stem)
       then None else Some (toLowerCase ext))"
    using assms(1) by (auto simp: resolveExtension_def Let_def idx len dr)
  show ?thesis unfolding r by simp
qed

lemma resolveExtension_no_dot:
  assumes "trim (toLowerCase (asString raw)) \<in> {[], ''---'', ''%''}"
    and "CHR ''.'' \<notin> set name"
  shows "resolveExtension raw name = None"
  using assms by (auto simp: resolveExtension_def Let_def lastIndexOf_none)

text \<open>
  C8, as the code has it. The explicit field, read as a string, lower-cased and trimmed,
  is returned when it is then neither empty nor one of the sentinels \<^verbatim>\<open>---\<close> and
  \<^verbatim>\<open>%\<close>. Otherwise the extension comes from the name: split at its last dot, the part
  after the dot is returned in lower case when neither part is empty; a name whose last
  dot is its first or last character, or that has no dot, has no extension.
\<close>

theorem resolveExtension_resolution:
  "(trim (toLowerCase (asString raw)) \<notin> {[], ''---'', ''%''} \<longrightarrow>
      resolveExtension raw name = Some (trim (toLowerCase (asString raw)))) \<and>
   (trim (toLowerCase (asString raw)) \<in> {[], ''---'', ''%''} \<longrightarrow>
      (\<forall>stem ext. name = stem @ ''.'' @ ext \<and> CHR ''.'' \<notin> set ext \<longrightarrow>
         resolveExtension raw name =
           (if stem \<noteq> [] \<and> ext \<noteq> [] then Some (toLowerCase ext) else None)) \<and>
      (CHR ''.'' \<notin> set name \<longrightarrow> resolveExtension raw name = None))"
  using resolveExtension_explicit [of raw name] resolveExtension_split [of raw name]
    resolveExtension_no_dot [of raw name]
  by blast

text \<open>
  C8 as stated fails for an explicit field with blanks: a blank field is not empty and no
  sentinel, yet the extension is derived from the name; and a field with blanks around it
  is returned without them.
\<close>

theorem blank_extension_counterexample:
  "resolveExtension (JString '' '') ''a.txt'' = Some ''txt'' \<and>
   resolveExtension (JString '' PNG '') ''a.txt'' = Some ''png''"
  by code_simp

text \<open>
  The theorem at the names of the claim, with no explicit field and with a sentinel, and
  at an explicit field.
\<close>

theorem resolveExtension_resolution_witness:
  "resolveExtension JUndefined ''archive.tar.gz'' = Some ''gz'' \<and>
   resolveExtension (JString ''---'') ''archive.tar.gz'' = Some ''gz'' \<and>
   resolveExtension JUndefined ''.bashrc'' = None \<and>
   resolveExtension (JString ''%'') ''trailing.'' = None \<and>
   resolveExtension JUndefined ''noext'' = None \<and>
   resolveExtension (JString ''JPG'') ''photo.jpeg'' = Some ''jpg''"
proof -
  note explicit = resolveExtension_resolution [THEN conjunct1, rule_format]
  note derived = resolveExtension_resolution [THEN conjunct2, rule_format, THEN conjunct1,
      rule_format]
  note no_dot = resolveExtension_resolution [THEN conjunct2, rule_format, THEN conjunct2,
      rule_format]
  have u: "trim (toLowerCase (asString JUndefined)) = []"
    "trim (toLowerCase (asString (JString ''---''))) = ''---''"
    "trim (toLowerCase (asString (JString ''%''))) = ''%''"
    "trim (toLowerCase (asString (JString ''JPG''))) = ''jpg''"
    by code_simp+
  have l: "toLowerCase ''gz'' = ''gz''" by code_simp
  have 1: "resolveExtension JUndefined ''archive.tar.gz'' = Some ''gz''"
    using derived [of JUndefined "''archive.tar.gz''" "''archive.tar''" "''gz''"]
    by (simp add: u l)
  have 2: "resolveExtension (JString ''---'') ''archive.tar.gz'' = Some ''gz''"
    using derived [of "JString ''---''" "''archive.tar.gz''" "''archive.tar''" "''gz''"]
    by (simp add: u l)
  have 3: "resolveExtension JUndefined ''.bashrc'' = None"
    using derived [of JUndefined "''.bashrc''" "[]" "''bashrc''"]
    by (simp add: u)
  have 4: "resolveExtension (JString ''%'') ''trailing.'' = None"
    using derived [of "JString ''%''" "''trailing.''" "''trailing''" "[]"]
    by (simp add: u)
  have 5: "resolveExtension JUndefined ''noext'' = None"
    using no_dot [of JUndefined "''noext''"] by (simp add: u)
  have 6: "resolveExtension (JString ''JPG'') ''photo.jpeg'' = Some ''jpg''"
    using explicit [of "JString ''JPG''" "''photo.jpeg''"] by (simp add: u)
  show ?thesis using 1 2 3 4 5 6 by simp
qed



section \<open>Upload paths and names (page module)\<close>

text \<open>The page has its own copies of the path functions.\<close>

definition normalizeInventoryPath :: "string \<Rightarrow> string" where
  "normalizeInventoryPath path =
     (let segments = foldl normalizeStep [] (split_on CHR ''/'' (replaceBackslashes path)) in
      if segments \<noteq> [] then ''/'' @ joinWith ''/'' segments else ''/'')"

definition getParentInventoryPath :: "string \<Rightarrow> string option" where
  "getParentInventoryPath path =
     (let normalized = normalizeInventoryPath path in
      if normalized = ''/'' then None
      else
        let segments = butlast (pathSegments normalized) in
        Some (if segments \<noteq> [] then ''/'' @ joinWith ''/'' segments else ''/''))"

definition joinNormalizedPaths :: "string \<Rightarrow> string \<Rightarrow> string" where
  "joinNormalizedPaths base child = normalizeInventoryPath (base @ ''/'' @ child)"

definition normalizeUploadRelativePath :: "string \<Rightarrow> string" where
  "normalizeUploadRelativePath path =
     joinWith ''/'' (foldl normalizeStep [] (split_on CHR ''/'' (replaceBackslashes path)))"

text \<open>\<^verbatim>\<open>splitUploadRelativePath\<close>: the directory and the file name.\<close>

definition splitUploadRelativePath :: "string \<Rightarrow> string \<times> string" where
  "splitUploadRelativePath relativePath =
     (let normalized = normalizeUploadRelativePath relativePath in
      if normalized = [] then ([], [])
      else
        let segments = split_on CHR ''/'' normalized in
        (joinWith ''/'' (butlast segments), last segments))"

text \<open>\<^verbatim>\<open>splitFileName\<close>: the stem and the extension, which keeps its dot.\<close>

definition splitFileName :: "string \<Rightarrow> string \<times> string" where
  "splitFileName name =
     (let dotIndex = lastIndexOf CHR ''.'' name in
      if dotIndex \<le> 0 \<or> dotIndex \<ge> int (length name) - 1 then (name, [])
      else (take (nat dotIndex) name, drop (nat dotIndex) name))"

text \<open>
  A \<^verbatim>\<open>Set<string>\<close> is the list of its members in insertion order.
\<close>

definition setAdd :: "string \<Rightarrow> string list \<Rightarrow> string list" where
  "setAdd x xs = (if x \<in> set xs then xs else xs @ [x])"

definition numberedName :: "string \<Rightarrow> string \<Rightarrow> nat \<Rightarrow> string" where
  "numberedName stem ext index = stem @ '' ('' @ showNat index @ '')'' @ ext"

text \<open>
  The \<^verbatim>\<open>while (true)\<close> loop of \<^verbatim>\<open>makeUniqueFileName\<close>: the first index, counting
  up, whose numbered name is not reserved.
\<close>

function findFreeIndex :: "string \<Rightarrow> string \<Rightarrow> string list \<Rightarrow> nat \<Rightarrow> nat" where
  "findFreeIndex stem ext reservedNames index =
     (if numberedName stem ext index \<notin> set reservedNames then index
      else findFreeIndex stem ext reservedNames (index + 1))"
  by pat_completeness auto

text \<open>Decimal numerals determine their number, so the numbered names are all different.\<close>

definition digitValue :: "char \<Rightarrow> nat" where
  "digitValue c = of_char c - 48"

lemma digitValue_digitChar: "d < 10 \<Longrightarrow> digitValue (digitChar d) = d"
proof -
  assume "d < 10"
  then have "d \<in> {0, 1, 2, 3, 4, 5, 6, 7, 8, 9}" by auto
  then show ?thesis
    by (auto simp: digitValue_def digitChar_def)
qed

lemma foldl_digits_showNat:
  "foldl (\<lambda>acc c. acc * 10 + digitValue c) 0 (showNat n) = n"
proof (induction n rule: showNat.induct)
  case (1 n)
  show ?case
  proof (cases "n < 10")
    case True
    then show ?thesis by (subst showNat.simps) (simp add: digitValue_digitChar)
  next
    case False
    then have "foldl (\<lambda>acc c. acc * 10 + digitValue c) 0 (showNat (n div 10)) = n div 10"
      using 1 by simp
    then show ?thesis using False
      by (subst showNat.simps) (simp add: digitValue_digitChar)
  qed
qed

lemma showNat_inj: "showNat a = showNat b \<Longrightarrow> a = b"
  by (metis foldl_digits_showNat)

lemma numberedName_inj: "numberedName stem ext a = numberedName stem ext b \<Longrightarrow> a = b"
  by (simp add: numberedName_def showNat_inj)

lemma finite_reserved_indices:
  "finite {k. numberedName stem ext k \<in> set reservedNames}"
proof -
  have "inj (numberedName stem ext)" by (rule injI) (rule numberedName_inj)
  then have "finite (numberedName stem ext -` set reservedNames)"
    by (intro finite_vimageI) simp_all
  then show ?thesis by (simp add: vimage_def)
qed

termination findFreeIndex
proof (relation "measure (\<lambda>(stem, ext, reservedNames, index).
    card {k. index \<le> k \<and> numberedName stem ext k \<in> set reservedNames})")
  show "wf (measure (\<lambda>(stem, ext, reservedNames, index).
    card {k. index \<le> k \<and> numberedName stem ext k \<in> set reservedNames}))"
    by simp
next
  fix stem ext :: string and reservedNames :: "string list" and index :: nat
  assume "\<not> numberedName stem ext index \<notin> set reservedNames"
  then have mem: "numberedName stem ext index \<in> set reservedNames" by simp
  let ?A = "{k. index + 1 \<le> k \<and> numberedName stem ext k \<in> set reservedNames}"
  let ?B = "{k. index \<le> k \<and> numberedName stem ext k \<in> set reservedNames}"
  have fin: "finite ?B"
    using finite_reserved_indices [of stem ext reservedNames] by (rule rev_finite_subset) auto
  have "index \<in> ?B" "index \<notin> ?A" using mem by auto
  then have "?A \<noteq> ?B" by metis
  moreover have "?A \<subseteq> ?B" by auto
  ultimately have "?A \<subset> ?B" by blast
  then have "card ?A < card ?B" using fin by (rule psubset_card_mono [rotated])
  then show "((stem, ext, reservedNames, index + 1), (stem, ext, reservedNames, index))
      \<in> measure (\<lambda>(stem, ext, reservedNames, index).
           card {k. index \<le> k \<and> numberedName stem ext k \<in> set reservedNames})"
    by simp
qed

declare findFreeIndex.simps [simp del]

text \<open>
  \<^verbatim>\<open>makeUniqueFileName\<close>: the name and the set of reserved names with the name added.
\<close>

definition makeUniqueFileName :: "string \<Rightarrow> string list \<Rightarrow> string \<times> string list" where
  "makeUniqueFileName baseName reservedNames =
     (if baseName \<notin> set reservedNames then (baseName, setAdd baseName reservedNames)
      else
        let (stem, ext) = splitFileName baseName;
            candidate = numberedName stem ext (findFreeIndex stem ext reservedNames 2)
        in (candidate, setAdd candidate reservedNames))"

section \<open>Enqueueing uploads (page module)\<close>

record uploadFile =
  f_name :: string
  f_size :: nat
  f_lastModified :: nat

record UploadCandidate =
  uc_file :: uploadFile
  uc_relativePath :: string

datatype ConflictStrategy = Rename | Replace | Skip

text \<open>\<^verbatim>\<open>TransferStatus\<close>; \<open>ErrorStatus\<close> is the status \<^verbatim>\<open>'error'\<close>.\<close>

datatype TransferStatus = Queued | Uploading | Complete | ErrorStatus

text \<open>The state of the \<^verbatim>\<open>XMLHttpRequest\<close> of an item, once it was sent.\<close>

datatype xhrState = XhrSent | XhrDone

record TransferItem =
  t_id :: string
  t_file :: uploadFile
  t_sourceName :: string
  t_targetName :: string
  t_targetPath :: string
  t_destinationPath :: string
  t_uploadUrl :: string
  t_name :: string
  t_size :: nat
  t_loaded :: nat
  t_progress :: nat
  t_status :: TransferStatus
  t_replaceExisting :: bool
  t_error :: "string option"
  t_xhr :: "xhrState option"

text \<open>What the page reads of \<^verbatim>\<open>data.inventory\<close>: the listing it shows.\<close>

record pageInventory =
  p_currentPath :: string
  p_rootPath :: string
  p_uploadUrl :: string
  p_fileNames :: "string list"

definition getUploadUrlForDestinationPath :: "platform \<Rightarrow> pageInventory \<Rightarrow> string \<Rightarrow> string" where
  "getUploadUrlForDestinationPath P page destinationPath =
     (let currentPath = normalizeInventoryPath (p_currentPath page);
          normalizedDestinationPath = normalizeInventoryPath destinationPath
      in if normalizedDestinationPath = currentPath then p_uploadUrl page
         else
           let rootPath = (if trim (p_rootPath page) \<noteq> []
                           then normalizeInventoryPath (p_rootPath page) else ''/'');
               currentUpstreamPath = joinNormalizedPaths rootPath currentPath;
               destinationUpstreamPath = joinNormalizedPaths rootPath normalizedDestinationPath
           in (case parseUrl P (p_uploadUrl page) of
                 None \<Rightarrow> p_uploadUrl page
               | Some uploadUrl \<Rightarrow>
                   let pathnameSegments =
                         pathSegments (normalizeInventoryPath (u_pathname uploadUrl));
                       currentUpstreamSegments = pathSegments currentUpstreamPath;
                       destinationUpstreamSegments = pathSegments destinationUpstreamPath;
                       hasCurrentSuffix =
                         (length currentUpstreamSegments \<le> length pathnameSegments \<and>
                          drop (length pathnameSegments - length currentUpstreamSegments)
                            pathnameSegments = currentUpstreamSegments)
                   in if hasCurrentSuffix
                      then
                        let prefixSegments =
                              take (length pathnameSegments - length currentUpstreamSegments)
                                pathnameSegments
                        in urlToString P (uploadUrl\<lparr>u_pathname := encodePathname P
                             (''/'' @ joinWith ''/'' (prefixSegments @ destinationUpstreamSegments))\<rparr>)
                      else urlToString P
                             (uploadUrl\<lparr>u_pathname := encodePathname P destinationUpstreamPath\<rparr>)))"

text \<open>
  The local state of one call of \<^verbatim>\<open>enqueueUploads\<close>: the reserved names of each
  destination directory, the items built so far, and their number.
\<close>

record enqueueState =
  reservedNamesByDestination :: "string \<rightharpoonup> string list"
  enqueuedItems :: "TransferItem list"
  enqueuedCount :: nat

text \<open>\<^verbatim>\<open>new Set(names)\<close>.\<close>

definition setFromList :: "string list \<Rightarrow> string list" where
  "setFromList names = foldl (\<lambda>acc x. setAdd x acc) [] names"

text \<open>
  \<^verbatim>\<open>existingNamesByDestination.get(path) ?? new Set()\<close>: the map has one entry, the
  names of the files of the listing, at the destination of the call.
\<close>

definition existingNamesAt :: "pageInventory \<Rightarrow> string \<Rightarrow> string \<Rightarrow> string list" where
  "existingNamesAt page normalizedDestinationPath path =
     (if path = normalizedDestinationPath then setFromList (p_fileNames page) else [])"

text \<open>
  The name, the replace flag and the reserved names after the choice that the strategy
  makes for one candidate.
\<close>

definition resolveTargetName ::
  "ConflictStrategy \<Rightarrow> string \<Rightarrow> string list \<Rightarrow> bool \<Rightarrow> bool \<Rightarrow> bool
    \<Rightarrow> string \<times> bool \<times> string list" where
  "resolveTargetName strategy sourceName reservedNames hasConflict existsOnServer atDestination =
     (if strategy = Rename
      then (let (n, r) = makeUniqueFileName sourceName reservedNames in (n, False, r))
      else if strategy = Replace
      then (if existsOnServer \<and> atDestination
            then (sourceName, True, setAdd sourceName reservedNames)
            else if hasConflict
            then (let (n, r) = makeUniqueFileName sourceName reservedNames in (n, False, r))
            else (sourceName, False, setAdd sourceName reservedNames))
      else (sourceName, False, setAdd sourceName reservedNames))"

text \<open>
  One iteration of the loop of \<^verbatim>\<open>enqueueUploads\<close>. \<open>ids n\<close> is the identifier that
  \<^verbatim>\<open>createTransferId\<close> draws for the item built after \<open>n\<close> others.
\<close>

definition enqueueCandidate ::
  "platform \<Rightarrow> pageInventory \<Rightarrow> (nat \<Rightarrow> string) \<Rightarrow> ConflictStrategy \<Rightarrow> string
    \<Rightarrow> enqueueState \<Rightarrow> UploadCandidate \<Rightarrow> enqueueState" where
  "enqueueCandidate P page ids strategy normalizedDestinationPath st candidate =
     (let normalizedRelativePath = normalizeUploadRelativePath (uc_relativePath candidate);
          (directory, fileName) = splitUploadRelativePath normalizedRelativePath;
          sourceName = trim fileName
      in if sourceName = [] then st
         else
           let resolvedDestinationPath =
                 (if directory \<noteq> [] then joinNormalizedPaths normalizedDestinationPath directory
                  else normalizedDestinationPath);
               reservedNames =
                 (case reservedNamesByDestination st resolvedDestinationPath of
                    Some names \<Rightarrow> names
                  | None \<Rightarrow> existingNamesAt page normalizedDestinationPath
                              resolvedDestinationPath);
               existingNames =
                 existingNamesAt page normalizedDestinationPath resolvedDestinationPath;
               hasConflict = (sourceName \<in> set reservedNames);
               existsOnServer = (sourceName \<in> set existingNames)
           in if hasConflict \<and> strategy = Skip
              then st\<lparr>reservedNamesByDestination :=
                        (reservedNamesByDestination st)(resolvedDestinationPath \<mapsto> reservedNames)\<rparr>
              else
                let (targetName, replaceExisting, reservedNames') =
                      resolveTargetName strategy sourceName reservedNames hasConflict
                        existsOnServer (resolvedDestinationPath = normalizedDestinationPath)
                in st\<lparr>reservedNamesByDestination :=
                         (reservedNamesByDestination st)(resolvedDestinationPath \<mapsto> reservedNames'),
                       enqueuedItems := enqueuedItems st @
                         [\<lparr> t_id = ids (enqueuedCount st),
                            t_file = uc_file candidate,
                            t_sourceName = sourceName,
                            t_targetName = targetName,
                            t_targetPath = joinNormalizedPaths resolvedDestinationPath targetName,
                            t_destinationPath = resolvedDestinationPath,
                            t_uploadUrl = getUploadUrlForDestinationPath P page
                                            resolvedDestinationPath,
                            t_name = (if normalizedRelativePath \<noteq> [] then normalizedRelativePath
                                      else targetName),
                            t_size = f_size (uc_file candidate),
                            t_loaded = 0,
                            t_progress = 0,
                            t_status = Queued,
                            t_replaceExisting = replaceExisting,
                            t_error = None,
                            t_xhr = None \<rparr>],
                       enqueuedCount := enqueuedCount st + 1\<rparr>)"

text \<open>
  The items that one call of \<^verbatim>\<open>enqueueUploads\<close> hands to the queue, in order. The
  call does nothing when the page has no upload URL.
\<close>

definition enqueuedTransferItems ::
  "platform \<Rightarrow> pageInventory \<Rightarrow> (nat \<Rightarrow> string) \<Rightarrow> UploadCandidate list \<Rightarrow> ConflictStrategy
    \<Rightarrow> string \<Rightarrow> TransferItem list" where
  "enqueuedTransferItems P page ids candidates strategy destinationPath =
     (if trim (p_uploadUrl page) = [] then []
      else enqueuedItems
             (foldl (enqueueCandidate P page ids strategy (normalizeInventoryPath destinationPath))
                \<lparr> reservedNamesByDestination = Map.empty, enqueuedItems = [],
                  enqueuedCount = 0 \<rparr>
                candidates))"

definition examplePage :: pageInventory where
  "examplePage =
     \<lparr> p_currentPath = ''/pics'', p_rootPath = ''/'',
       p_uploadUrl = ''http://files.example.com:3923/pics'',
       p_fileNames = [''photo.png''] \<rparr>"

definition exampleCandidate :: "string \<Rightarrow> nat \<Rightarrow> UploadCandidate" where
  "exampleCandidate path n =
     \<lparr> uc_file = \<lparr> f_name = path, f_size = n, f_lastModified = 0 \<rparr>, uc_relativePath = path \<rparr>"


section \<open>Unique names\<close>

lemma set_setAdd [simp]: "set (setAdd x xs) = insert x (set xs)"
  by (auto simp: setAdd_def)

lemma set_setFromList [simp]: "set (setFromList names) = set names"
proof -
  have "set (foldl (\<lambda>acc x. setAdd x acc) acc names) = set acc \<union> set names" for acc
    by (induction names arbitrary: acc) auto
  then show ?thesis by (simp add: setFromList_def)
qed

lemma findFreeIndex_spec:
  "index \<le> findFreeIndex stem ext reservedNames index \<and>
   numberedName stem ext (findFreeIndex stem ext reservedNames index) \<notin> set reservedNames \<and>
   (\<forall>j. index \<le> j \<and> j < findFreeIndex stem ext reservedNames index \<longrightarrow>
        numberedName stem ext j \<in> set reservedNames)"
proof (induction stem ext reservedNames index rule: findFreeIndex.induct)
  case (1 stem ext reservedNames index)
  show ?case
  proof (cases "numberedName stem ext index \<in> set reservedNames")
    case False
    then have "findFreeIndex stem ext reservedNames index = index"
      by (subst findFreeIndex.simps) simp
    with False show ?thesis by auto
  next
    case True
    then have eq: "findFreeIndex stem ext reservedNames index =
                   findFreeIndex stem ext reservedNames (index + 1)"
      by (subst findFreeIndex.simps) simp
    have IH: "index + 1 \<le> findFreeIndex stem ext reservedNames (index + 1) \<and>
       numberedName stem ext (findFreeIndex stem ext reservedNames (index + 1))
         \<notin> set reservedNames \<and>
       (\<forall>j. index + 1 \<le> j \<and> j < findFreeIndex stem ext reservedNames (index + 1) \<longrightarrow>
            numberedName stem ext j \<in> set reservedNames)"
      using 1 True by simp
    show ?thesis unfolding eq
    proof (intro conjI allI impI)
      show "index \<le> findFreeIndex stem ext reservedNames (index + 1)" using IH by simp
      show "numberedName stem ext (findFreeIndex stem ext reservedNames (index + 1))
         \<notin> set reservedNames" using IH by simp
      fix j
      assume j: "index \<le> j \<and> j < findFreeIndex stem ext reservedNames (index + 1)"
      show "numberedName stem ext j \<in> set reservedNames"
      proof (cases "j = index")
        case True
        then show ?thesis using \<open>numberedName stem ext index \<in> set reservedNames\<close> by simp
      next
        case False
        then have "index + 1 \<le> j" using j by simp
        then show ?thesis using IH j by blast
      qed
    qed
  qed
qed

lemma splitFileName_append: "fst (splitFileName name) @ snd (splitFileName name) = name"
  by (simp add: splitFileName_def Let_def)

lemma makeUniqueFileName_spec:
  assumes "makeUniqueFileName baseName reservedNames = (name, reservedNames')"
  shows "name \<notin> set reservedNames \<and> set reservedNames' = insert name (set reservedNames) \<and>
         (baseName \<notin> set reservedNames \<longrightarrow> name = baseName) \<and>
         (baseName \<in> set reservedNames \<longrightarrow>
            (\<exists>k\<ge>2. name = numberedName (fst (splitFileName baseName))
                               (snd (splitFileName baseName)) k \<and>
                (\<forall>j. 2 \<le> j \<and> j < k \<longrightarrow>
                   numberedName (fst (splitFileName baseName))
                     (snd (splitFileName baseName)) j \<in> set reservedNames)))"
proof (cases "baseName \<in> set reservedNames")
  case False
  then show ?thesis using assms by (auto simp: makeUniqueFileName_def)
next
  case True
  let ?stem = "fst (splitFileName baseName)"
  let ?ext = "snd (splitFileName baseName)"
  let ?k = "findFreeIndex ?stem ?ext reservedNames 2"
  have n: "name = numberedName ?stem ?ext ?k" "reservedNames' = setAdd name reservedNames"
    using assms True by (auto simp: makeUniqueFileName_def Let_def case_prod_beta)
  from findFreeIndex_spec [of 2 ?stem ?ext reservedNames] n True
  show ?thesis by auto
qed


lemma photo_facts:
  "splitFileName ''photo.png'' = (''photo'', ''.png'')"
  "numberedName ''photo'' ''.png'' 2 = ''photo (2).png''"
  "numberedName ''photo'' ''.png'' 3 = ''photo (3).png''"
  "normalizeUploadRelativePath ''photo.png'' = ''photo.png''"
  "splitUploadRelativePath ''photo.png'' = ([], ''photo.png'')"
  "trim ''photo.png'' = ''photo.png''"
  by code_simp+

lemma makeUnique_photo_first:
  assumes "''photo.png'' \<in> set reservedNames" and "''photo (2).png'' \<notin> set reservedNames"
  shows "makeUniqueFileName ''photo.png'' reservedNames =
           (''photo (2).png'', setAdd ''photo (2).png'' reservedNames)"
proof -
  have "findFreeIndex ''photo'' ''.png'' reservedNames 2 = 2"
    using assms(2) by (subst findFreeIndex.simps) (simp add: photo_facts)
  then show ?thesis using assms(1) by (simp add: makeUniqueFileName_def photo_facts Let_def)
qed

lemma makeUnique_photo_second:
  assumes "''photo.png'' \<in> set reservedNames" and "''photo (2).png'' \<in> set reservedNames"
    and "''photo (3).png'' \<notin> set reservedNames"
  shows "makeUniqueFileName ''photo.png'' reservedNames =
           (''photo (3).png'', setAdd ''photo (3).png'' reservedNames)"
proof -
  have "findFreeIndex ''photo'' ''.png'' reservedNames 3 = 3"
    using assms(3) by (subst findFreeIndex.simps) (simp add: photo_facts)
  then have "findFreeIndex ''photo'' ''.png'' reservedNames 2 = 3"
    using assms(2) by (subst findFreeIndex.simps) (simp add: photo_facts)
  then show ?thesis using assms(1) by (simp add: makeUniqueFileName_def photo_facts Let_def)
qed

lemma rename_photo_batch:
  assumes "trim (p_uploadUrl page) \<noteq> []"
    and "''photo.png'' \<in> set (p_fileNames page)"
    and "''photo (2).png'' \<notin> set (p_fileNames page)"
    and "''photo (3).png'' \<notin> set (p_fileNames page)"
    and "uc_relativePath c1 = ''photo.png''" and "uc_relativePath c2 = ''photo.png''"
  shows "map (\<lambda>item. (t_targetName item, t_destinationPath item, t_replaceExisting item))
           (enqueuedTransferItems P page ids [c1, c2] Rename destinationPath) =
         [(''photo (2).png'', normalizeInventoryPath destinationPath, False),
          (''photo (3).png'', normalizeInventoryPath destinationPath, False)]"
proof -
  let ?nd = "normalizeInventoryPath destinationPath"
  let ?R0 = "existingNamesAt page ?nd ?nd"
  let ?R1 = "setAdd ''photo (2).png'' ?R0"
  have R0: "''photo.png'' \<in> set ?R0" "''photo (2).png'' \<notin> set ?R0"
    "''photo (3).png'' \<notin> set ?R0"
    using assms(2,3,4) by (simp_all add: existingNamesAt_def)
  have m1: "makeUniqueFileName ''photo.png'' ?R0 = (''photo (2).png'', ?R1)"
    using R0 by (intro makeUnique_photo_first)
  have m2: "makeUniqueFileName ''photo.png'' ?R1 =
              (''photo (3).png'', setAdd ''photo (3).png'' ?R1)"
    using R0 by (intro makeUnique_photo_second) simp_all
  show ?thesis
    using assms(1)
    by (simp add: enqueuedTransferItems_def enqueueCandidate_def resolveTargetName_def
        assms(5,6) photo_facts m1 m2 Let_def)
qed


text \<open>
  C5. Under the rename strategy, when the listing of the page holds \<^verbatim>\<open>photo.png\<close> (and
  neither of the two numbered names) and two candidates named \<^verbatim>\<open>photo.png\<close> are
  enqueued into the destination, the items are named \<^verbatim>\<open>photo (2).png\<close> and
  \<^verbatim>\<open>photo (3).png\<close>, in input order. In general the name that
  \<^const>\<open>makeUniqueFileName\<close> returns was not reserved and is reserved afterwards; it is the
  base name when that is free, and otherwise the stem, a blank, the least number from 2 in
  parentheses whose name is free (every smaller one is reserved, by the listing or by an
  earlier candidate), and the extension.
\<close>

theorem rename_strategy_numbering:
  "(trim (p_uploadUrl page) \<noteq> [] \<and> ''photo.png'' \<in> set (p_fileNames page) \<and>
    ''photo (2).png'' \<notin> set (p_fileNames page) \<and>
    ''photo (3).png'' \<notin> set (p_fileNames page) \<and>
    uc_relativePath c1 = ''photo.png'' \<and> uc_relativePath c2 = ''photo.png'' \<longrightarrow>
      map (\<lambda>item. (t_targetName item, t_destinationPath item, t_replaceExisting item))
        (enqueuedTransferItems P page ids [c1, c2] Rename destinationPath) =
      [(''photo (2).png'', normalizeInventoryPath destinationPath, False),
       (''photo (3).png'', normalizeInventoryPath destinationPath, False)]) \<and>
   (\<forall>name reservedNames'.
      makeUniqueFileName baseName reservedNames = (name, reservedNames') \<longrightarrow>
        name \<notin> set reservedNames \<and> set reservedNames' = insert name (set reservedNames) \<and>
        fst (splitFileName baseName) @ snd (splitFileName baseName) = baseName \<and>
        (baseName \<notin> set reservedNames \<longrightarrow> name = baseName) \<and>
        (baseName \<in> set reservedNames \<longrightarrow>
           (\<exists>k\<ge>2. name = fst (splitFileName baseName) @ '' ('' @ showNat k @ '')'' @
                             snd (splitFileName baseName) \<and>
               (\<forall>j. 2 \<le> j \<and> j < k \<longrightarrow>
                  fst (splitFileName baseName) @ '' ('' @ showNat j @ '')'' @
                    snd (splitFileName baseName) \<in> set reservedNames))))"
proof (intro conjI impI allI)
  assume "trim (p_uploadUrl page) \<noteq> [] \<and> ''photo.png'' \<in> set (p_fileNames page) \<and>
    ''photo (2).png'' \<notin> set (p_fileNames page) \<and>
    ''photo (3).png'' \<notin> set (p_fileNames page) \<and>
    uc_relativePath c1 = ''photo.png'' \<and> uc_relativePath c2 = ''photo.png''"
  then show "map (\<lambda>item. (t_targetName item, t_destinationPath item, t_replaceExisting item))
        (enqueuedTransferItems P page ids [c1, c2] Rename destinationPath) =
      [(''photo (2).png'', normalizeInventoryPath destinationPath, False),
       (''photo (3).png'', normalizeInventoryPath destinationPath, False)]"
    by (intro rename_photo_batch) simp_all
next
  fix name reservedNames'
  assume m: "makeUniqueFileName baseName reservedNames = (name, reservedNames')"
  note spec = makeUniqueFileName_spec [OF m, unfolded numberedName_def]
  show "name \<notin> set reservedNames" using spec by blast
  show "set reservedNames' = insert name (set reservedNames)" using spec by blast
  show "fst (splitFileName baseName) @ snd (splitFileName baseName) = baseName"
    by (rule splitFileName_append)
  show "name = baseName" if "baseName \<notin> set reservedNames" using spec that by blast
  show "\<exists>k\<ge>2. name = fst (splitFileName baseName) @ '' ('' @ showNat k @ '')'' @
                             snd (splitFileName baseName) \<and>
               (\<forall>j. 2 \<le> j \<and> j < k \<longrightarrow>
                  fst (splitFileName baseName) @ '' ('' @ showNat j @ '')'' @
                    snd (splitFileName baseName) \<in> set reservedNames)"
    if "baseName \<in> set reservedNames" using spec that by blast
qed

text \<open>
  The theorem at a page whose listing is \<^verbatim>\<open>photo.png\<close>, and at the second of the two
  candidates.
\<close>

theorem rename_strategy_numbering_witness:
  "map t_targetName
     (enqueuedTransferItems examplePlatform examplePage showNat
        [exampleCandidate ''photo.png'' 10, exampleCandidate ''photo.png'' 20] Rename ''/pics'')
     = [''photo (2).png'', ''photo (3).png''] \<and>
   makeUniqueFileName ''photo.png'' [''photo.png'', ''photo (2).png'']
     = (''photo (3).png'', [''photo.png'', ''photo (2).png'', ''photo (3).png'']) \<and>
   splitFileName ''photo.png'' = (''photo'', ''.png'')"
proof -
  have m: "makeUniqueFileName ''photo.png'' [''photo.png'', ''photo (2).png'']
     = (''photo (3).png'', [''photo.png'', ''photo (2).png'', ''photo (3).png''])"
    by code_simp
  have page: "trim (p_uploadUrl examplePage) \<noteq> []"
    "p_fileNames examplePage = [''photo.png'']"
    by (simp_all add: examplePage_def trim_def isWhiteSpace_def)
  have "map (\<lambda>item. (t_targetName item, t_destinationPath item, t_replaceExisting item))
        (enqueuedTransferItems examplePlatform examplePage showNat
          [exampleCandidate ''photo.png'' 10, exampleCandidate ''photo.png'' 20] Rename ''/pics'')
      = [(''photo (2).png'', normalizeInventoryPath ''/pics'', False),
         (''photo (3).png'', normalizeInventoryPath ''/pics'', False)]"
    using rename_strategy_numbering [THEN conjunct1, rule_format,
        of examplePage "exampleCandidate ''photo.png'' 10" "exampleCandidate ''photo.png'' 20"
           examplePlatform showNat "''/pics''"]
    by (simp add: page exampleCandidate_def)
  then have "map (fst \<circ> (\<lambda>item. (t_targetName item, t_destinationPath item,
        t_replaceExisting item)))
        (enqueuedTransferItems examplePlatform examplePage showNat
          [exampleCandidate ''photo.png'' 10, exampleCandidate ''photo.png'' 20] Rename ''/pics'')
      = [''photo (2).png'', ''photo (3).png'']"
    by (simp only: map_map [symmetric] list.map fst_conv)
  then have 1: "map t_targetName
     (enqueuedTransferItems examplePlatform examplePage showNat
        [exampleCandidate ''photo.png'' 10, exampleCandidate ''photo.png'' 20] Rename ''/pics'')
     = [''photo (2).png'', ''photo (3).png'']"
    by (simp add: comp_def)
  show ?thesis using 1 m by (simp add: photo_facts)
qed


section \<open>Distinct names within one call of enqueueUploads\<close>






























section \<open>The transfer queue (page module)\<close>

definition MAX_CONCURRENT_UPLOADS :: int where
  "MAX_CONCURRENT_UPLOADS = 3"

definition MOBILE_CONCURRENT_UPLOADS :: int where
  "MOBILE_CONCURRENT_UPLOADS = 1"

definition MAX_FINISHED_TRANSFER_ITEMS :: nat where
  "MAX_FINISHED_TRANSFER_ITEMS = 260"

text \<open>
  Where the call of \<^verbatim>\<open>startUpload\<close> for an item stands: not made yet; suspended at
  the \<^verbatim>\<open>await\<close> of the destination check, of the delete before a replace, at the
  transport (waiting for an event of the request), at the \<^verbatim>\<open>await\<close> of the move in
  \<^verbatim>\<open>finalizeUploadedItem\<close>, or after \<^verbatim>\<open>finalizeUploadedItem\<close> returned and before
  the load handler resumes; ended by \<^verbatim>\<open>finishUpload\<close>; or ended by an exception of
  \<^verbatim>\<open>new URL(item.uploadUrl)\<close>, which nothing catches.
\<close>

datatype uploadPhase =
    NotStarted | AwaitEnsure | AwaitDelete | AwaitTransport | AwaitFinalize | AwaitFinish
  | Finished | Crashed

text \<open>An item object together with the phase of its upload.\<close>

record transferSlot =
  slotItem :: TransferItem
  slotPhase :: uploadPhase

text \<open>
  The state of the page that the queue works on. Item objects live in \<open>itemStore\<close> and
  are referred to by their index; \<^verbatim>\<open>transferItems\<close> and \<^verbatim>\<open>uploadQueue\<close> hold such
  references. \<open>invalidations\<close> counts the calls of \<^verbatim>\<open>invalidateAll\<close>.
\<close>

record queueState =
  itemStore :: "transferSlot list"
  transferItems :: "nat list"
  uploadQueue :: "nat list"
  activeUploads :: int
  uploadConcurrencyLimit :: int
  needsInventoryRefresh :: bool
  invalidations :: nat

record FileActionResponse =
  fa_ok :: bool
  fa_error :: "string option"

definition initialQueueState :: "bool \<Rightarrow> queueState" where
  "initialQueueState isLikelyMobileClient =
     \<lparr> itemStore = [], transferItems = [], uploadQueue = [], activeUploads = 0,
       uploadConcurrencyLimit =
         (if isLikelyMobileClient then MOBILE_CONCURRENT_UPLOADS else MAX_CONCURRENT_UPLOADS),
       needsInventoryRefresh = False, invalidations = 0 \<rparr>"

definition isTransferActive :: "TransferStatus \<Rightarrow> bool" where
  "isTransferActive status \<longleftrightarrow> status = Queued \<or> status = Uploading"

definition statusAt :: "queueState \<Rightarrow> nat \<Rightarrow> TransferStatus option" where
  "statusAt s a =
     (if a < length (itemStore s) then Some (t_status (slotItem (itemStore s ! a))) else None)"

definition phaseAt :: "queueState \<Rightarrow> nat \<Rightarrow> uploadPhase option" where
  "phaseAt s a =
     (if a < length (itemStore s) then Some (slotPhase (itemStore s ! a)) else None)"

text \<open>Assignments to the fields of the item at a reference, and a change of its phase.\<close>

definition updateItem :: "nat \<Rightarrow> (TransferItem \<Rightarrow> TransferItem) \<Rightarrow> queueState \<Rightarrow> queueState" where
  "updateItem a f s =
     (if a < length (itemStore s)
      then s\<lparr>itemStore := (itemStore s)[a := (itemStore s ! a)\<lparr>slotItem :=
                 f (slotItem (itemStore s ! a))\<rparr>]\<rparr>
      else s)"

definition setPhase :: "nat \<Rightarrow> uploadPhase \<Rightarrow> queueState \<Rightarrow> queueState" where
  "setPhase a ph s =
     (if a < length (itemStore s)
      then s\<lparr>itemStore := (itemStore s)[a := (itemStore s ! a)\<lparr>slotPhase := ph\<rparr>]\<rparr>
      else s)"

text \<open>\<^verbatim>\<open>pruneFinishedTransferHistory\<close>: the loop runs over the history from its end.\<close>

fun pruneReversed :: "(nat \<Rightarrow> bool) \<Rightarrow> nat \<Rightarrow> nat list \<Rightarrow> nat list" where
  "pruneReversed active finishedCount [] = []"
| "pruneReversed active finishedCount (a # rest) =
     (if active a then a # pruneReversed active finishedCount rest
      else if finishedCount \<ge> MAX_FINISHED_TRANSFER_ITEMS
      then pruneReversed active finishedCount rest
      else a # pruneReversed active (finishedCount + 1) rest)"

definition pruneFinishedTransferHistory :: "queueState \<Rightarrow> queueState" where
  "pruneFinishedTransferHistory s =
     s\<lparr>transferItems :=
         rev (pruneReversed
                (\<lambda>a. case statusAt s a of Some st \<Rightarrow> isTransferActive st | None \<Rightarrow> False)
                0 (rev (transferItems s)))\<rparr>"

text \<open>The part of \<^verbatim>\<open>startUpload\<close> before its first \<^verbatim>\<open>await\<close>.\<close>

definition startUpload :: "nat \<Rightarrow> queueState \<Rightarrow> queueState" where
  "startUpload a s =
     setPhase a AwaitEnsure
       (updateItem a (\<lambda>item. item\<lparr>t_status := Uploading, t_progress := 0, t_loaded := 0,
                                   t_error := None\<rparr>)
          (s\<lparr>activeUploads := activeUploads s + 1\<rparr>))"

function processUploadQueue :: "queueState \<Rightarrow> queueState" where
  "processUploadQueue s =
     (if activeUploads s < uploadConcurrencyLimit s \<and> uploadQueue s \<noteq> []
      then
        let next = hd (uploadQueue s);
            s' = s\<lparr>uploadQueue := tl (uploadQueue s)\<rparr>
        in if statusAt s' next \<noteq> Some Queued then processUploadQueue s'
           else processUploadQueue (startUpload next s')
      else s)"
  by pat_completeness auto
termination
  by (relation "measure (\<lambda>s. length (uploadQueue s))")
     (auto simp: startUpload_def setPhase_def updateItem_def)

declare processUploadQueue.simps [simp del]

definition finishUpload :: "nat \<Rightarrow> queueState \<Rightarrow> queueState" where
  "finishUpload a s =
     (let s1 = setPhase a Finished (updateItem a (\<lambda>item. item\<lparr>t_xhr := None\<rparr>) s);
          s2 = s1\<lparr>activeUploads := max 0 (activeUploads s1 - 1)\<rparr>;
          s3 = pruneFinishedTransferHistory (processUploadQueue s2)
      in if activeUploads s3 = 0 \<and> uploadQueue s3 = [] \<and> needsInventoryRefresh s3
         then s3\<lparr>needsInventoryRefresh := False, invalidations := invalidations s3 + 1\<rparr>
         else s3)"

text \<open>\<^verbatim>\<open>value || fallback\<close> for an optional string.\<close>

definition orElse :: "string option \<Rightarrow> string \<Rightarrow> string" where
  "orElse v fallback = (case v of Some s \<Rightarrow> if s \<noteq> [] then s else fallback | None \<Rightarrow> fallback)"

text \<open>
  The transport of \<^verbatim>\<open>startUpload\<close>: the request is built and sent, unless the upload
  URL of the item does not parse.
\<close>

definition sendTransport :: "platform \<Rightarrow> nat \<Rightarrow> queueState \<Rightarrow> queueState" where
  "sendTransport P a s =
     (case parseUrl P (t_uploadUrl (slotItem (itemStore s ! a))) of
        None \<Rightarrow> setPhase a Crashed s
      | Some targetUrl \<Rightarrow>
          setPhase a AwaitTransport (updateItem a (\<lambda>item. item\<lparr>t_xhr := Some XhrSent\<rparr>) s))"

definition failUpload :: "nat \<Rightarrow> string \<Rightarrow> queueState \<Rightarrow> queueState" where
  "failUpload a message s =
     finishUpload a
       (updateItem a (\<lambda>item. item\<lparr>t_status := ErrorStatus, t_error := Some message\<rparr>) s)"

definition completeItem :: "TransferItem \<Rightarrow> TransferItem" where
  "completeItem item =
     item\<lparr>t_status := Complete,
          t_loaded := (if t_size item \<noteq> 0 then t_size item else t_loaded item),
          t_progress := 100\<rparr>"

text \<open>
  What the page reacts to. The settle events carry the result that the awaited call
  gives; the transport events are those of the request of an item; \<open>LoadResumed\<close> is
  the continuation of the load handler after \<^verbatim>\<open>finalizeUploadedItem\<close>. A progress event
  carries the loaded bytes and the percentage that the handler computes from it.
\<close>

datatype queueEvent =
    EnqueueBatch "TransferItem list"
  | EnqueueDone
  | CancelTransfer string
  | DismissTransfer string
  | ClearFinishedTransfers
  | EnsureSettled nat FileActionResponse
  | DeleteSettled nat FileActionResponse
  | TransportProgress nat nat nat
  | TransportLoad nat nat
  | TransportError nat
  | TransportAbort nat
  | MoveSettled nat FileActionResponse
  | LoadResumed nat

definition onAbort :: "nat \<Rightarrow> queueState \<Rightarrow> queueState" where
  "onAbort a s = failUpload a ''Upload canceled'' s"

definition cancelTransfer :: "string \<Rightarrow> queueState \<Rightarrow> queueState" where
  "cancelTransfer itemId s =
     (case find (\<lambda>a. a < length (itemStore s) \<and> t_id (slotItem (itemStore s ! a)) = itemId)
             (transferItems s) of
        None \<Rightarrow> s
      | Some a \<Rightarrow>
          let item = slotItem (itemStore s ! a) in
          if t_status item = Queued
          then
            let queueIndex = length (takeWhile
                  (\<lambda>b. \<not> (b < length (itemStore s) \<and>
                           t_id (slotItem (itemStore s ! b)) = t_id item)) (uploadQueue s));
                s' = (if queueIndex < length (uploadQueue s)
                      then s\<lparr>uploadQueue := take queueIndex (uploadQueue s) @
                                               drop (queueIndex + 1) (uploadQueue s)\<rparr>
                      else s)
            in updateItem a (\<lambda>item. item\<lparr>t_status := ErrorStatus,
                                           t_error := Some ''Upload canceled''\<rparr>) s'
          else if t_status item = Uploading \<and> t_xhr item = Some XhrSent
          then onAbort a s
          else s)"

definition step :: "platform \<Rightarrow> queueState \<Rightarrow> queueEvent \<Rightarrow> queueState" where
  "step P s event =
     (case event of
        EnqueueBatch batchItems \<Rightarrow>
          pruneFinishedTransferHistory
            (if batchItems \<noteq> []
             then
               let n = length (itemStore s);
                   refs = [n ..< n + length batchItems]
               in processUploadQueue
                    (s\<lparr>itemStore := itemStore s @
                          map (\<lambda>item. \<lparr> slotItem = item\<lparr>t_status := Queued, t_loaded := 0,
                                           t_progress := 0, t_error := None, t_xhr := None\<rparr>,
                                         slotPhase = NotStarted \<rparr>) batchItems,
                        transferItems := transferItems s @ refs,
                        uploadQueue := uploadQueue s @ refs\<rparr>)
             else s)
      | EnqueueDone \<Rightarrow> processUploadQueue s
      | CancelTransfer itemId \<Rightarrow> cancelTransfer itemId s
      | DismissTransfer itemId \<Rightarrow>
          s\<lparr>transferItems :=
               filter (\<lambda>a. \<not> (a < length (itemStore s) \<and>
                               t_id (slotItem (itemStore s ! a)) = itemId)) (transferItems s)\<rparr>
      | ClearFinishedTransfers \<Rightarrow>
          s\<lparr>transferItems :=
               filter (\<lambda>a. case statusAt s a of Some st \<Rightarrow> isTransferActive st | None \<Rightarrow> False)
                 (transferItems s)\<rparr>
      | EnsureSettled a result \<Rightarrow>
          if phaseAt s a \<noteq> Some AwaitEnsure then s
          else if \<not> fa_ok result
          then failUpload a (orElse (fa_error result) ''Unable to prepare destination folder.'') s
          else if t_replaceExisting (slotItem (itemStore s ! a)) then setPhase a AwaitDelete s
          else sendTransport P a s
      | DeleteSettled a result \<Rightarrow>
          if phaseAt s a \<noteq> Some AwaitDelete then s
          else
            let allowMissingDelete =
                  (case fa_error result of
                     Some e \<Rightarrow> stringIncludes e ''HTTP 404'' | None \<Rightarrow> False)
            in if \<not> fa_ok result \<and> \<not> allowMissingDelete
               then failUpload a
                      (orElse (fa_error result)
                         (''Unable to replace '' @ t_targetName (slotItem (itemStore s ! a)) @ ''.''))
                      s
               else sendTransport P a s
      | TransportProgress a loaded percent \<Rightarrow>
          if phaseAt s a \<noteq> Some AwaitTransport then s
          else updateItem a (\<lambda>item. item\<lparr>t_loaded := loaded, t_progress := percent\<rparr>) s
      | TransportLoad a status \<Rightarrow>
          if phaseAt s a \<noteq> Some AwaitTransport then s
          else
            let s1 = updateItem a (\<lambda>item. item\<lparr>t_xhr := Some XhrDone\<rparr>) s;
                item = slotItem (itemStore s1 ! a)
            in if 200 \<le> status \<and> status < 300
               then
                 let sourceParentPath = getParentInventoryPath (t_targetPath item);
                     destinationPath = normalizeInventoryPath (t_destinationPath item)
                 in if sourceParentPath = None \<or> sourceParentPath = Some [] \<or>
                       Some destinationPath = sourceParentPath
                    then setPhase a AwaitFinish (updateItem a completeItem s1)
                    else setPhase a AwaitFinalize s1
               else failUpload a (''Upload failed ('' @ showNat status @ '')'') s1
      | TransportError a \<Rightarrow>
          if phaseAt s a \<noteq> Some AwaitTransport then s
          else failUpload a ''Upload failed (network error)'' s
      | TransportAbort a \<Rightarrow>
          if phaseAt s a \<noteq> Some AwaitTransport then s else onAbort a s
      | MoveSettled a result \<Rightarrow>
          if phaseAt s a \<noteq> Some AwaitFinalize then s
          else if \<not> fa_ok result
          then setPhase a AwaitFinish
                 (updateItem a (\<lambda>item. item\<lparr>t_status := ErrorStatus,
                    t_error := Some (orElse (fa_error result)
                                       ''Upload complete but move failed.'')\<rparr>) s)
          else setPhase a AwaitFinish (updateItem a completeItem s)
      | LoadResumed a \<Rightarrow>
          if phaseAt s a \<noteq> Some AwaitFinish then s
          else finishUpload a (s\<lparr>needsInventoryRefresh := True\<rparr>))"

definition runQueue :: "platform \<Rightarrow> bool \<Rightarrow> queueEvent list \<Rightarrow> queueState" where
  "runQueue P isLikelyMobileClient events =
     foldl (step P) (initialQueueState isLikelyMobileClient) events"

definition uploadingCount :: "queueState \<Rightarrow> nat" where
  "uploadingCount s =
     length (filter (\<lambda>slot. t_status (slotItem slot) = Uploading) (itemStore s))"


section \<open>The concurrency invariant of the queue\<close>

text \<open>The phases in which a call of \<^verbatim>\<open>startUpload\<close> has not yet reached \<^verbatim>\<open>finishUpload\<close>.\<close>

definition inFlight :: "uploadPhase \<Rightarrow> bool" where
  "inFlight ph \<longleftrightarrow> ph \<noteq> NotStarted \<and> ph \<noteq> Finished"

definition inFlightCount :: "queueState \<Rightarrow> nat" where
  "inFlightCount s = length (filter (\<lambda>slot. inFlight (slotPhase slot)) (itemStore s))"

text \<open>
  How the status of an item and the phase of its upload go together: an uploading item
  is in flight, a queued item was not started, and when \<^verbatim>\<open>finalizeUploadedItem\<close> has
  returned the item is complete or failed.
\<close>

definition slotOk :: "transferSlot \<Rightarrow> bool" where
  "slotOk slot \<longleftrightarrow>
     (t_status (slotItem slot) = Uploading \<longrightarrow> inFlight (slotPhase slot)) \<and>
     (t_status (slotItem slot) = Queued \<longrightarrow> slotPhase slot = NotStarted) \<and>
     (slotPhase slot = AwaitFinish \<longrightarrow>
        t_status (slotItem slot) = Complete \<or> t_status (slotItem slot) = ErrorStatus)"

text \<open>
  The invariant: the limit is the configured one, the counter of active uploads is the
  number of uploads in flight and does not exceed the limit, and every slot is consistent.
\<close>

definition queueInvariant :: "int \<Rightarrow> queueState \<Rightarrow> bool" where
  "queueInvariant limit s \<longleftrightarrow>
     uploadConcurrencyLimit s = limit \<and>
     activeUploads s = int (inFlightCount s) \<and>
     activeUploads s \<le> limit \<and>
     (\<forall>slot\<in>set (itemStore s). slotOk slot)"

lemma length_filter_update:
  "a < length xs \<Longrightarrow>
   length (filter Q (xs[a := y])) + (if Q (xs ! a) then 1 else 0) =
   length (filter Q xs) + (if Q y then 1 else 0)"
proof (induction xs arbitrary: a)
  case Nil
  then show ?case by simp
next
  case (Cons x xs)
  then show ?case by (cases a) auto
qed

lemma length_filter_mono:
  "(\<And>x. x \<in> set xs \<Longrightarrow> Q x \<Longrightarrow> R x) \<Longrightarrow> length (filter Q xs) \<le> length (filter R xs)"
proof (induction xs)
  case Nil
  then show ?case by simp
next
  case (Cons x xs)
  then have "length (filter Q xs) \<le> length (filter R xs)" by simp
  moreover have "Q x \<longrightarrow> R x" using Cons.prems by simp
  ultimately show ?case by auto
qed

lemma uploadingCount_le_inFlightCount:
  "\<forall>slot\<in>set (itemStore s). slotOk slot \<Longrightarrow> uploadingCount s \<le> inFlightCount s"
  unfolding uploadingCount_def inFlightCount_def
  by (rule length_filter_mono) (simp add: slotOk_def)

text \<open>Replacing a slot by a consistent one that is in flight exactly when the old one was.\<close>

lemma invariant_replace:
  assumes "queueInvariant limit s" and "a < length (itemStore s)" and "slotOk y"
    and "inFlight (slotPhase y) = inFlight (slotPhase (itemStore s ! a))"
  shows "queueInvariant limit (s\<lparr>itemStore := (itemStore s)[a := y]\<rparr>)"
proof -
  have "inFlightCount (s\<lparr>itemStore := (itemStore s)[a := y]\<rparr>) = inFlightCount s"
    using length_filter_update [OF assms(2), of "\<lambda>slot. inFlight (slotPhase slot)" y] assms(4)
    by (simp add: inFlightCount_def split: if_splits)
  moreover have "\<forall>slot\<in>set ((itemStore s)[a := y]). slotOk slot"
    using assms(1,3) by (auto simp: queueInvariant_def dest: set_update_subset_insert [THEN subsetD])
  ultimately show ?thesis using assms(1) by (simp add: queueInvariant_def)
qed

lemma invariant_slot:
  "queueInvariant limit s \<Longrightarrow> a < length (itemStore s) \<Longrightarrow> slotOk (itemStore s ! a)"
  by (simp add: queueInvariant_def)

lemma invariant_updateItem:
  assumes "queueInvariant limit s"
    and "a < length (itemStore s) \<Longrightarrow>
         slotOk ((itemStore s ! a)\<lparr>slotItem := f (slotItem (itemStore s ! a))\<rparr>)"
  shows "queueInvariant limit (updateItem a f s)"
proof (cases "a < length (itemStore s)")
  case True
  then show ?thesis
    unfolding updateItem_def using assms by (simp add: invariant_replace)
next
  case False
  then show ?thesis using assms(1) by (simp add: updateItem_def)
qed

lemma invariant_setPhase:
  assumes "queueInvariant limit s"
    and "a < length (itemStore s) \<Longrightarrow> slotOk ((itemStore s ! a)\<lparr>slotPhase := ph\<rparr>)"
    and "a < length (itemStore s) \<Longrightarrow> inFlight ph = inFlight (slotPhase (itemStore s ! a))"
  shows "queueInvariant limit (setPhase a ph s)"
proof (cases "a < length (itemStore s)")
  case True
  then show ?thesis
    unfolding setPhase_def using assms by (simp add: invariant_replace)
next
  case False
  then show ?thesis using assms(1) by (simp add: setPhase_def)
qed

lemma phaseAt_updateItem [simp]: "phaseAt (updateItem a f s) b = phaseAt s b"
  by (auto simp: phaseAt_def updateItem_def nth_list_update)

lemma statusAt_setPhase [simp]: "statusAt (setPhase a ph s) b = statusAt s b"
  by (auto simp: statusAt_def setPhase_def nth_list_update)

lemma length_store_updateItem [simp]: "length (itemStore (updateItem a f s)) = length (itemStore s)"
  by (simp add: updateItem_def)

lemma length_store_setPhase [simp]: "length (itemStore (setPhase a ph s)) = length (itemStore s)"
  by (simp add: setPhase_def)

lemma nth_updateItem:
  "b < length (itemStore s) \<Longrightarrow>
   itemStore (updateItem a f s) ! b =
     (if b = a then (itemStore s ! a)\<lparr>slotItem := f (slotItem (itemStore s ! a))\<rparr>
      else itemStore s ! b)"
  by (simp add: updateItem_def nth_list_update)

lemma nth_setPhase:
  "b < length (itemStore s) \<Longrightarrow>
   itemStore (setPhase a ph s) ! b =
     (if b = a then (itemStore s ! a)\<lparr>slotPhase := ph\<rparr> else itemStore s ! b)"
  by (simp add: setPhase_def nth_list_update)


lemma invariant_startUpload:
  assumes inv: "queueInvariant limit s" and q: "statusAt s a = Some Queued"
    and below: "activeUploads s < uploadConcurrencyLimit s"
  shows "queueInvariant limit (startUpload a s)"
proof -
  from q have a: "a < length (itemStore s)" and st: "t_status (slotItem (itemStore s ! a)) = Queued"
    by (auto simp: statusAt_def split: if_splits)
  from invariant_slot [OF inv a] st have ph: "slotPhase (itemStore s ! a) = NotStarted"
    by (simp add: slotOk_def)
  let ?y = "(itemStore s ! a)\<lparr>slotItem := (slotItem (itemStore s ! a))\<lparr>t_status := Uploading,
                 t_progress := 0, t_loaded := 0, t_error := None\<rparr>,
               slotPhase := AwaitEnsure\<rparr>"
  have eq: "startUpload a s =
      s\<lparr>activeUploads := activeUploads s + 1, itemStore := (itemStore s)[a := ?y]\<rparr>"
    using a by (simp add: startUpload_def setPhase_def updateItem_def)
  have cnt: "inFlightCount (s\<lparr>activeUploads := activeUploads s + 1,
                itemStore := (itemStore s)[a := ?y]\<rparr>) = inFlightCount s + 1"
    using length_filter_update [OF a, of "\<lambda>slot. inFlight (slotPhase slot)" ?y] ph
    by (simp add: inFlightCount_def inFlight_def)
  have ok: "\<forall>slot\<in>set ((itemStore s)[a := ?y]). slotOk slot"
  proof
    fix slot
    assume "slot \<in> set ((itemStore s)[a := ?y])"
    then have "slot = ?y \<or> slot \<in> set (itemStore s)"
      using set_update_subset_insert [of "itemStore s" a ?y] by auto
    then show "slotOk slot"
      using inv by (auto simp: queueInvariant_def slotOk_def inFlight_def)
  qed
  show ?thesis
    unfolding eq using inv below cnt ok by (simp add: queueInvariant_def)
qed

lemma invariant_dequeue:
  "queueInvariant limit s \<Longrightarrow> queueInvariant limit (s\<lparr>uploadQueue := q\<rparr>)"
  by (simp add: queueInvariant_def inFlightCount_def)

lemma invariant_processUploadQueue:
  "queueInvariant limit s \<Longrightarrow> queueInvariant limit (processUploadQueue s)"
proof (induction s rule: processUploadQueue.induct)
  case (1 s)
  show ?case
  proof (cases "activeUploads s < uploadConcurrencyLimit s \<and> uploadQueue s \<noteq> []")
    case False
    then show ?thesis using "1.prems" by (subst processUploadQueue.simps) auto
  next
    case True
    let ?next = "hd (uploadQueue s)"
    let ?s' = "s\<lparr>uploadQueue := tl (uploadQueue s)\<rparr>"
    have inv': "queueInvariant limit ?s'" using "1.prems" by (rule invariant_dequeue)
    show ?thesis
    proof (cases "statusAt ?s' ?next \<noteq> Some Queued")
      case skip: True
      have "processUploadQueue s = processUploadQueue ?s'"
        using True skip by (subst processUploadQueue.simps) (simp add: Let_def)
      moreover have "queueInvariant limit (processUploadQueue ?s')"
        using "1.IH"(1) [OF True refl refl skip] inv' by simp
      ultimately show ?thesis by simp
    next
      case start: False
      have "processUploadQueue s = processUploadQueue (startUpload ?next ?s')"
        using True start by (subst processUploadQueue.simps) (simp add: Let_def)
      moreover have "queueInvariant limit (startUpload ?next ?s')"
        using inv' start True by (intro invariant_startUpload) simp_all
      ultimately show ?thesis
        using "1.IH"(2) [OF True refl refl start] by simp
    qed
  qed
qed

lemma invariant_prune:
  "queueInvariant limit s \<Longrightarrow> queueInvariant limit (pruneFinishedTransferHistory s)"
  by (simp add: queueInvariant_def inFlightCount_def pruneFinishedTransferHistory_def)

lemma invariant_finishUpload:
  assumes inv: "queueInvariant limit s" and a: "a < length (itemStore s)"
    and ph: "inFlight (slotPhase (itemStore s ! a))"
    and st: "t_status (slotItem (itemStore s ! a)) = Complete \<or>
             t_status (slotItem (itemStore s ! a)) = ErrorStatus"
  shows "queueInvariant limit (finishUpload a s)"
proof -
  let ?y = "(itemStore s ! a)\<lparr>slotItem := (slotItem (itemStore s ! a))\<lparr>t_xhr := None\<rparr>,
               slotPhase := Finished\<rparr>"
  let ?s1 = "s\<lparr>itemStore := (itemStore s)[a := ?y]\<rparr>"
  let ?s2 = "?s1\<lparr>activeUploads := max 0 (activeUploads ?s1 - 1)\<rparr>"
  have s1: "setPhase a Finished (updateItem a (\<lambda>item. item\<lparr>t_xhr := None\<rparr>) s) = ?s1"
    using a by (simp add: setPhase_def updateItem_def)
  have cnt: "inFlightCount ?s1 + 1 = inFlightCount s"
    using length_filter_update [OF a, of "\<lambda>slot. inFlight (slotPhase slot)" ?y] ph
    by (simp add: inFlightCount_def inFlight_def)
  have ok: "\<forall>slot\<in>set ((itemStore s)[a := ?y]). slotOk slot"
  proof
    fix slot
    assume "slot \<in> set ((itemStore s)[a := ?y])"
    then have "slot = ?y \<or> slot \<in> set (itemStore s)"
      using set_update_subset_insert [of "itemStore s" a ?y] by auto
    then show "slotOk slot"
      using inv st by (auto simp: queueInvariant_def slotOk_def inFlight_def)
  qed
  have inv2: "queueInvariant limit ?s2"
    using inv cnt ok by (simp add: queueInvariant_def inFlightCount_def)
  let ?s3 = "pruneFinishedTransferHistory (processUploadQueue ?s2)"
  have inv3: "queueInvariant limit ?s3"
    using inv2 by (intro invariant_prune invariant_processUploadQueue)
  have "finishUpload a s =
      (if activeUploads ?s3 = 0 \<and> uploadQueue ?s3 = [] \<and> needsInventoryRefresh ?s3
       then ?s3\<lparr>needsInventoryRefresh := False, invalidations := invalidations ?s3 + 1\<rparr>
       else ?s3)"
    unfolding finishUpload_def s1 Let_def by simp
  then show ?thesis
    using inv3 by (simp add: queueInvariant_def inFlightCount_def)
qed

lemma invariant_failUpload:
  assumes inv: "queueInvariant limit s" and a: "a < length (itemStore s)"
    and ph: "inFlight (slotPhase (itemStore s ! a))"
  shows "queueInvariant limit (failUpload a message s)"
  unfolding failUpload_def
proof (rule invariant_finishUpload)
  let ?f = "\<lambda>item. item\<lparr>t_status := ErrorStatus, t_error := Some message\<rparr>"
  show "queueInvariant limit (updateItem a ?f s)"
    using inv by (rule invariant_updateItem) (simp add: slotOk_def)
  show "a < length (itemStore (updateItem a ?f s))" using a by simp
  show "inFlight (slotPhase (itemStore (updateItem a ?f s) ! a))"
    using a ph by (simp add: nth_updateItem)
  show "t_status (slotItem (itemStore (updateItem a ?f s) ! a)) = Complete \<or>
        t_status (slotItem (itemStore (updateItem a ?f s) ! a)) = ErrorStatus"
    using a by (simp add: nth_updateItem)
qed


lemma phaseAt_Some:
  "phaseAt s a = Some ph \<Longrightarrow> a < length (itemStore s) \<and> slotPhase (itemStore s ! a) = ph"
  by (auto simp: phaseAt_def split: if_splits)

lemma invariant_updateItem_same_status:
  assumes "queueInvariant limit s" and "\<And>item. t_status (f item) = t_status item"
  shows "queueInvariant limit (updateItem a f s)"
  using assms(1)
proof (rule invariant_updateItem)
  assume "a < length (itemStore s)"
  then have "slotOk (itemStore s ! a)" using assms(1) by (simp add: invariant_slot)
  then show "slotOk ((itemStore s ! a)\<lparr>slotItem := f (slotItem (itemStore s ! a))\<rparr>)"
    by (simp add: slotOk_def assms(2))
qed

lemma invariant_setPhase_inFlight:
  assumes inv: "queueInvariant limit s" and a: "a < length (itemStore s)"
    and old: "inFlight (slotPhase (itemStore s ! a))"
    and new: "inFlight ph" "ph \<noteq> AwaitFinish"
  shows "queueInvariant limit (setPhase a ph s)"
  using inv
proof (rule invariant_setPhase)
  have "slotOk (itemStore s ! a)" using inv a by (simp add: invariant_slot)
  then show "slotOk ((itemStore s ! a)\<lparr>slotPhase := ph\<rparr>)"
    using old new by (auto simp: slotOk_def inFlight_def)
  show "inFlight ph = inFlight (slotPhase (itemStore s ! a))" using old new by simp
qed

lemma invariant_settle:
  assumes inv: "queueInvariant limit s" and a: "a < length (itemStore s)"
    and old: "inFlight (slotPhase (itemStore s ! a))"
    and st: "t_status (g (slotItem (itemStore s ! a))) = Complete \<or>
             t_status (g (slotItem (itemStore s ! a))) = ErrorStatus"
  shows "queueInvariant limit (setPhase a AwaitFinish (updateItem a g s))"
proof (rule invariant_setPhase)
  show "queueInvariant limit (updateItem a g s)"
    using inv
  proof (rule invariant_updateItem)
    show "slotOk ((itemStore s ! a)\<lparr>slotItem := g (slotItem (itemStore s ! a))\<rparr>)"
      using st old by (auto simp: slotOk_def)
  qed
  show "slotOk ((itemStore (updateItem a g s) ! a)\<lparr>slotPhase := AwaitFinish\<rparr>)"
    using a st by (auto simp: nth_updateItem slotOk_def)
  show "inFlight AwaitFinish = inFlight (slotPhase (itemStore (updateItem a g s) ! a))"
    using a old by (simp add: nth_updateItem inFlight_def)
qed

lemma invariant_sendTransport:
  assumes inv: "queueInvariant limit s" and a: "a < length (itemStore s)"
    and old: "inFlight (slotPhase (itemStore s ! a))"
  shows "queueInvariant limit (sendTransport P a s)"
proof (cases "parseUrl P (t_uploadUrl (slotItem (itemStore s ! a)))")
  case None
  then have "sendTransport P a s = setPhase a Crashed s" by (simp add: sendTransport_def)
  then show ?thesis
    using invariant_setPhase_inFlight [OF inv a old, of Crashed] by (simp add: inFlight_def)
next
  case (Some targetUrl)
  let ?s1 = "updateItem a (\<lambda>item. item\<lparr>t_xhr := Some XhrSent\<rparr>) s"
  have 1: "queueInvariant limit ?s1"
    using inv by (rule invariant_updateItem_same_status) simp
  have "sendTransport P a s = setPhase a AwaitTransport ?s1"
    using Some by (simp add: sendTransport_def)
  moreover have "queueInvariant limit (setPhase a AwaitTransport ?s1)"
    using 1 a old by (intro invariant_setPhase_inFlight) (simp_all add: nth_updateItem inFlight_def)
  ultimately show ?thesis by simp
qed

lemma invariant_append:
  assumes inv: "queueInvariant limit s"
    and new: "\<forall>slot\<in>set slots. t_status (slotItem slot) = Queued \<and> slotPhase slot = NotStarted"
  shows "queueInvariant limit
           (s\<lparr>itemStore := itemStore s @ slots, transferItems := ts, uploadQueue := q\<rparr>)"
proof -
  have "filter (\<lambda>slot. inFlight (slotPhase slot)) slots = []"
    using new by (auto simp: filter_empty_conv inFlight_def)
  then have "inFlightCount (s\<lparr>itemStore := itemStore s @ slots, transferItems := ts,
      uploadQueue := q\<rparr>) = inFlightCount s"
    by (simp add: inFlightCount_def)
  moreover have "\<forall>slot\<in>set slots. slotOk slot" using new by (simp add: slotOk_def)
  ultimately show ?thesis using inv by (auto simp: queueInvariant_def)
qed

lemma invariant_history:
  "queueInvariant limit s \<Longrightarrow> queueInvariant limit (s\<lparr>transferItems := ts\<rparr>)"
  by (simp add: queueInvariant_def inFlightCount_def)

lemma invariant_refresh:
  "queueInvariant limit s \<Longrightarrow> queueInvariant limit (s\<lparr>needsInventoryRefresh := b\<rparr>)"
  by (simp add: queueInvariant_def inFlightCount_def)

lemma invariant_cancelTransfer:
  assumes inv: "queueInvariant limit s"
  shows "queueInvariant limit (cancelTransfer itemId s)"
proof (cases "find (\<lambda>a. a < length (itemStore s) \<and> t_id (slotItem (itemStore s ! a)) = itemId)
             (transferItems s)")
  case None
  then show ?thesis using inv by (simp add: cancelTransfer_def)
next
  case (Some a)
  then have a: "a < length (itemStore s)" by (auto simp: find_Some_iff)
  let ?item = "slotItem (itemStore s ! a)"
  have ok: "slotOk (itemStore s ! a)" using inv a by (rule invariant_slot)
  show ?thesis
  proof (cases "t_status ?item = Queued")
    case True
    let ?f = "\<lambda>item. item\<lparr>t_status := ErrorStatus, t_error := Some ''Upload canceled''\<rparr>"
    have upd: "queueInvariant limit (updateItem a ?f s')"
      if "queueInvariant limit s'" "itemStore s' = itemStore s" for s'
      using that(1)
    proof (rule invariant_updateItem)
      show "slotOk ((itemStore s' ! a)\<lparr>slotItem := ?f (slotItem (itemStore s' ! a))\<rparr>)"
        using ok True that(2) by (simp add: slotOk_def)
    qed
    show ?thesis
      using Some True inv
      by (auto simp: cancelTransfer_def Let_def intro!: upd invariant_dequeue)
  next
    case False
    show ?thesis
    proof (cases "t_status ?item = Uploading \<and> t_xhr ?item = Some XhrSent")
      case True
      then have "inFlight (slotPhase (itemStore s ! a))" using ok by (simp add: slotOk_def)
      then have "queueInvariant limit (onAbort a s)"
        unfolding onAbort_def using inv a by (intro invariant_failUpload)
      then show ?thesis using Some False True by (simp add: cancelTransfer_def Let_def)
    next
      case other: False
      then show ?thesis using Some False inv by (auto simp: cancelTransfer_def Let_def)
    qed
  qed
qed


lemma inFlight_simps [simp]:
  "inFlight AwaitEnsure" "inFlight AwaitDelete" "inFlight AwaitTransport"
  "inFlight AwaitFinalize" "inFlight AwaitFinish" "inFlight Crashed"
  "\<not> inFlight NotStarted" "\<not> inFlight Finished"
  by (simp_all add: inFlight_def)

lemma invariant_step:
  assumes inv: "queueInvariant limit s"
  shows "queueInvariant limit (step P s event)"
proof (cases event)
  case (EnqueueBatch batchItems)
  let ?mk = "\<lambda>item. \<lparr> slotItem = item\<lparr>t_status := Queued, t_loaded := 0, t_progress := 0,
                          t_error := None, t_xhr := None\<rparr>, slotPhase = NotStarted \<rparr>"
  let ?refs = "[length (itemStore s) ..< length (itemStore s) + length batchItems]"
  have "queueInvariant limit
          (s\<lparr>itemStore := itemStore s @ map ?mk batchItems,
             transferItems := transferItems s @ ?refs, uploadQueue := uploadQueue s @ ?refs\<rparr>)"
    using inv by (rule invariant_append) simp
  then have 1: "queueInvariant limit
          (pruneFinishedTransferHistory (processUploadQueue
               (s\<lparr>itemStore := itemStore s @ map ?mk batchItems,
                  transferItems := transferItems s @ ?refs,
                  uploadQueue := uploadQueue s @ ?refs\<rparr>)))"
    by (intro invariant_prune invariant_processUploadQueue)
  have 2: "queueInvariant limit (pruneFinishedTransferHistory s)"
    using inv by (rule invariant_prune)
  show ?thesis
    unfolding EnqueueBatch step_def using 1 2 by (simp add: Let_def)
next
  case EnqueueDone
  then show ?thesis using inv by (simp add: step_def invariant_processUploadQueue)
next
  case (CancelTransfer itemId)
  then show ?thesis using inv by (simp add: step_def invariant_cancelTransfer)
next
  case (DismissTransfer itemId)
  then show ?thesis using inv by (simp add: step_def invariant_history)
next
  case ClearFinishedTransfers
  then show ?thesis using inv by (simp add: step_def invariant_history)
next
  case (EnsureSettled a result)
  show ?thesis
  proof (cases "phaseAt s a = Some AwaitEnsure")
    case False
    then show ?thesis using inv EnsureSettled by (simp add: step_def)
  next
    case True
    then have a: "a < length (itemStore s)" "inFlight (slotPhase (itemStore s ! a))"
      using phaseAt_Some [OF True] by simp_all
    have 1: "queueInvariant limit (failUpload a m s)" for m
      using inv a by (rule invariant_failUpload)
    have 2: "queueInvariant limit (setPhase a AwaitDelete s)"
      using inv a by (rule invariant_setPhase_inFlight) simp_all
    have 3: "queueInvariant limit (sendTransport P a s)"
      using inv a by (rule invariant_sendTransport)
    show ?thesis using True 1 2 3 by (simp add: EnsureSettled step_def)
  qed
next
  case (DeleteSettled a result)
  show ?thesis
  proof (cases "phaseAt s a = Some AwaitDelete")
    case False
    then show ?thesis using inv DeleteSettled by (simp add: step_def)
  next
    case True
    then have a: "a < length (itemStore s)" "inFlight (slotPhase (itemStore s ! a))"
      using phaseAt_Some [OF True] by simp_all
    have 1: "queueInvariant limit (failUpload a m s)" for m
      using inv a by (rule invariant_failUpload)
    have 3: "queueInvariant limit (sendTransport P a s)"
      using inv a by (rule invariant_sendTransport)
    show ?thesis using True 1 3 by (simp add: DeleteSettled step_def Let_def)
  qed
next
  case (TransportProgress a loaded percent)
  have "queueInvariant limit
          (updateItem a (\<lambda>item. item\<lparr>t_loaded := loaded, t_progress := percent\<rparr>) s)"
    using inv by (rule invariant_updateItem_same_status) simp
  then show ?thesis using inv by (simp add: TransportProgress step_def)
next
  case (TransportLoad a status)
  show ?thesis
  proof (cases "phaseAt s a = Some AwaitTransport")
    case False
    then show ?thesis using inv TransportLoad by (simp add: step_def)
  next
    case True
    then have a: "a < length (itemStore s)" "inFlight (slotPhase (itemStore s ! a))"
      using phaseAt_Some [OF True] by simp_all
    let ?s1 = "updateItem a (\<lambda>item. item\<lparr>t_xhr := Some XhrDone\<rparr>) s"
    have inv1: "queueInvariant limit ?s1"
      using inv by (rule invariant_updateItem_same_status) simp
    have a1: "a < length (itemStore ?s1)" "inFlight (slotPhase (itemStore ?s1 ! a))"
      using a by (simp_all add: nth_updateItem)
    have 1: "queueInvariant limit (failUpload a m ?s1)" for m
      using inv1 a1 by (rule invariant_failUpload)
    have 2: "queueInvariant limit (setPhase a AwaitFinish (updateItem a completeItem ?s1))"
      using inv1 a1 by (rule invariant_settle) (simp add: completeItem_def)
    have 3: "queueInvariant limit (setPhase a AwaitFinalize ?s1)"
      using inv1 a1 by (rule invariant_setPhase_inFlight) simp_all
    show ?thesis using True 1 2 3 by (simp add: TransportLoad step_def Let_def)
  qed
next
  case (TransportError a)
  show ?thesis
  proof (cases "phaseAt s a = Some AwaitTransport")
    case False
    then show ?thesis using inv TransportError by (simp add: step_def)
  next
    case True
    then have a: "a < length (itemStore s)" "inFlight (slotPhase (itemStore s ! a))"
      using phaseAt_Some [OF True] by simp_all
    have "queueInvariant limit (failUpload a m s)" for m
      using inv a by (rule invariant_failUpload)
    then show ?thesis using True by (simp add: TransportError step_def)
  qed
next
  case (TransportAbort a)
  show ?thesis
  proof (cases "phaseAt s a = Some AwaitTransport")
    case False
    then show ?thesis using inv TransportAbort by (simp add: step_def)
  next
    case True
    then have a: "a < length (itemStore s)" "inFlight (slotPhase (itemStore s ! a))"
      using phaseAt_Some [OF True] by simp_all
    have "queueInvariant limit (failUpload a m s)" for m
      using inv a by (rule invariant_failUpload)
    then show ?thesis using True by (simp add: TransportAbort step_def onAbort_def)
  qed
next
  case (MoveSettled a result)
  show ?thesis
  proof (cases "phaseAt s a = Some AwaitFinalize")
    case False
    then show ?thesis using inv MoveSettled by (simp add: step_def)
  next
    case True
    then have a: "a < length (itemStore s)" "inFlight (slotPhase (itemStore s ! a))"
      using phaseAt_Some [OF True] by simp_all
    have 1: "queueInvariant limit (setPhase a AwaitFinish
        (updateItem a (\<lambda>item. item\<lparr>t_status := ErrorStatus, t_error := Some m\<rparr>) s))" for m
      using inv a by (rule invariant_settle) simp
    have 2: "queueInvariant limit (setPhase a AwaitFinish (updateItem a completeItem s))"
      using inv a by (rule invariant_settle) (simp add: completeItem_def)
    show ?thesis using True 1 2 by (simp add: MoveSettled step_def)
  qed
next
  case (LoadResumed a)
  show ?thesis
  proof (cases "phaseAt s a = Some AwaitFinish")
    case False
    then show ?thesis using inv LoadResumed by (simp add: step_def)
  next
    case True
    then have a: "a < length (itemStore s)" "slotPhase (itemStore s ! a) = AwaitFinish"
      using phaseAt_Some [OF True] by simp_all
    have st: "t_status (slotItem (itemStore s ! a)) = Complete \<or>
              t_status (slotItem (itemStore s ! a)) = ErrorStatus"
      using invariant_slot [OF inv a(1)] a(2) by (simp add: slotOk_def)
    have "queueInvariant limit (finishUpload a (s\<lparr>needsInventoryRefresh := True\<rparr>))"
      using invariant_refresh [OF inv, of True] a st
      by (intro invariant_finishUpload) simp_all
    then show ?thesis using True by (simp add: LoadResumed step_def)
  qed
qed

lemma invariant_initial:
  "queueInvariant (if mobile then 1 else 3) (initialQueueState mobile)"
  by (simp add: queueInvariant_def initialQueueState_def inFlightCount_def
      MOBILE_CONCURRENT_UPLOADS_def MAX_CONCURRENT_UPLOADS_def)

lemma invariant_foldl:
  "queueInvariant limit s \<Longrightarrow> queueInvariant limit (foldl (step P) s events)"
  by (induction events arbitrary: s) (simp_all add: invariant_step)

lemma invariant_runQueue:
  "queueInvariant (if mobile then 1 else 3) (runQueue P mobile events)"
  unfolding runQueue_def by (intro invariant_foldl invariant_initial)



subsection \<open>The history list\<close>

text \<open>
  The history \<^verbatim>\<open>transferItems\<close> refers to items of the store, each at most once. An
  operation keeps the history when it can only drop references from it and leaves the number
  of items alone.
\<close>

definition historyOk :: "queueState \<Rightarrow> bool" where
  "historyOk s \<longleftrightarrow>
     distinct (transferItems s) \<and> (\<forall>a\<in>set (transferItems s). a < length (itemStore s))"

definition keepsHistory :: "queueState \<Rightarrow> queueState \<Rightarrow> bool" where
  "keepsHistory s s' \<longleftrightarrow>
     length (itemStore s') = length (itemStore s) \<and>
     set (transferItems s') \<subseteq> set (transferItems s) \<and>
     (distinct (transferItems s) \<longrightarrow> distinct (transferItems s'))"

lemma keepsHistory_refl [simp]: "keepsHistory s s"
  by (simp add: keepsHistory_def)

lemma keepsHistory_trans: "keepsHistory s s' \<Longrightarrow> keepsHistory s' s'' \<Longrightarrow> keepsHistory s s''"
  by (auto simp: keepsHistory_def)

lemma keepsHistory_historyOk: "keepsHistory s s' \<Longrightarrow> historyOk s \<Longrightarrow> historyOk s'"
  by (auto simp: keepsHistory_def historyOk_def)

lemma keepsHistory_updateItem [simp]: "keepsHistory s (updateItem a f s)"
  by (simp add: keepsHistory_def updateItem_def)

lemma keepsHistory_setPhase [simp]: "keepsHistory s (setPhase a ph s)"
  by (simp add: keepsHistory_def setPhase_def)

lemma keepsHistory_startUpload: "keepsHistory s (startUpload a s)"
  by (simp add: keepsHistory_def startUpload_def setPhase_def updateItem_def)

lemma keepsHistory_processUploadQueue: "keepsHistory s (processUploadQueue s)"
proof (induction s rule: processUploadQueue.induct)
  case (1 s)
  show ?case
  proof (cases "activeUploads s < uploadConcurrencyLimit s \<and> uploadQueue s \<noteq> []")
    case False
    then show ?thesis by (subst processUploadQueue.simps) auto
  next
    case True
    let ?next = "hd (uploadQueue s)"
    let ?s' = "s\<lparr>uploadQueue := tl (uploadQueue s)\<rparr>"
    have s': "keepsHistory s ?s'" by (simp add: keepsHistory_def)
    show ?thesis
    proof (cases "statusAt ?s' ?next \<noteq> Some Queued")
      case skip: True
      have "processUploadQueue s = processUploadQueue ?s'"
        using True skip by (subst processUploadQueue.simps) (simp add: Let_def)
      then show ?thesis
        using "1.IH"(1) [OF True refl refl skip] s' by (auto intro: keepsHistory_trans)
    next
      case start: False
      have "processUploadQueue s = processUploadQueue (startUpload ?next ?s')"
        using True start by (subst processUploadQueue.simps) (simp add: Let_def)
      moreover have "keepsHistory s (startUpload ?next ?s')"
        using s' keepsHistory_startUpload by (rule keepsHistory_trans)
      ultimately show ?thesis
        using "1.IH"(2) [OF True refl refl start] by (auto intro: keepsHistory_trans)
    qed
  qed
qed

lemma pruneReversed_sublist:
  "set (pruneReversed active n xs) \<subseteq> set xs \<and>
   (distinct xs \<longrightarrow> distinct (pruneReversed active n xs))"
  by (induction xs arbitrary: n) auto

lemma keepsHistory_prune: "keepsHistory s (pruneFinishedTransferHistory s)"
  using pruneReversed_sublist [of _ 0 "rev (transferItems s)"]
  by (auto simp: keepsHistory_def pruneFinishedTransferHistory_def)

lemma keepsHistory_fields:
  "keepsHistory s (s\<lparr>activeUploads := n\<rparr>)" "keepsHistory s (s\<lparr>uploadQueue := q\<rparr>)"
  "keepsHistory s (s\<lparr>needsInventoryRefresh := b\<rparr>)"
  "keepsHistory s (s\<lparr>needsInventoryRefresh := b, invalidations := k\<rparr>)"
  "keepsHistory s (s\<lparr>transferItems := filter Q (transferItems s)\<rparr>)"
  by (simp_all add: keepsHistory_def)

lemma keepsHistory_finishUpload: "keepsHistory s (finishUpload a s)"
proof -
  let ?s1 = "setPhase a Finished (updateItem a (\<lambda>item. item\<lparr>t_xhr := None\<rparr>) s)"
  let ?s2 = "?s1\<lparr>activeUploads := max 0 (activeUploads ?s1 - 1)\<rparr>"
  let ?s3 = "pruneFinishedTransferHistory (processUploadQueue ?s2)"
  have "keepsHistory s ?s1"
    by (rule keepsHistory_trans [OF keepsHistory_updateItem keepsHistory_setPhase])
  then have "keepsHistory s ?s2"
    by (rule keepsHistory_trans) (rule keepsHistory_fields)
  then have "keepsHistory s (processUploadQueue ?s2)"
    by (rule keepsHistory_trans) (rule keepsHistory_processUploadQueue)
  then have 3: "keepsHistory s ?s3"
    by (rule keepsHistory_trans) (rule keepsHistory_prune)
  then have 4: "keepsHistory s (?s3\<lparr>needsInventoryRefresh := False,
      invalidations := invalidations ?s3 + 1\<rparr>)"
    by (rule keepsHistory_trans) (rule keepsHistory_fields)
  show ?thesis
    unfolding finishUpload_def Let_def using 3 4 by simp
qed

lemma keepsHistory_failUpload: "keepsHistory s (failUpload a m s)"
  unfolding failUpload_def
  by (rule keepsHistory_trans [OF keepsHistory_updateItem keepsHistory_finishUpload])

lemma keepsHistory_sendTransport: "keepsHistory s (sendTransport P a s)"
  by (auto simp: sendTransport_def split: option.splits
      intro: keepsHistory_trans [OF keepsHistory_updateItem keepsHistory_setPhase])

lemma keepsHistory_cancelTransfer: "keepsHistory s (cancelTransfer itemId s)"
  by (auto simp: cancelTransfer_def Let_def onAbort_def keepsHistory_failUpload
      split: option.splits
      intro: keepsHistory_trans [OF keepsHistory_fields(2) keepsHistory_updateItem])


lemma historyOk_append:
  assumes "historyOk s"
  shows "historyOk (s\<lparr>itemStore := itemStore s @ slots,
           transferItems := transferItems s @
             [length (itemStore s) ..< length (itemStore s) + length slots],
           uploadQueue := q\<rparr>)"
  using assms by (fastforce simp: historyOk_def)

lemma historyOk_step:
  assumes ok: "historyOk s"
  shows "historyOk (step P s event)"
proof (cases event)
  case (EnqueueBatch batchItems)
  let ?mk = "\<lambda>item. \<lparr> slotItem = item\<lparr>t_status := Queued, t_loaded := 0, t_progress := 0,
                          t_error := None, t_xhr := None\<rparr>, slotPhase = NotStarted \<rparr>"
  let ?refs = "[length (itemStore s) ..< length (itemStore s) + length batchItems]"
  let ?s' = "s\<lparr>itemStore := itemStore s @ map ?mk batchItems,
             transferItems := transferItems s @ ?refs, uploadQueue := uploadQueue s @ ?refs\<rparr>"
  have "historyOk ?s'"
    using historyOk_append [OF ok, where slots = "map ?mk batchItems"] by simp
  then have "historyOk (processUploadQueue ?s')"
    using keepsHistory_processUploadQueue by (rule keepsHistory_historyOk [rotated])
  then have 1: "historyOk (pruneFinishedTransferHistory (processUploadQueue ?s'))"
    using keepsHistory_prune by (rule keepsHistory_historyOk [rotated])
  have 2: "historyOk (pruneFinishedTransferHistory s)"
    using keepsHistory_prune ok by (rule keepsHistory_historyOk)
  show ?thesis
    unfolding EnqueueBatch step_def using 1 2 by (simp add: Let_def)
next
  case EnqueueDone
  then show ?thesis
    using keepsHistory_historyOk [OF keepsHistory_processUploadQueue ok] by (simp add: step_def)
next
  case (CancelTransfer itemId)
  then show ?thesis
    using keepsHistory_historyOk [OF keepsHistory_cancelTransfer ok] by (simp add: step_def)
next
  case (DismissTransfer itemId)
  then show ?thesis
    using keepsHistory_historyOk [OF keepsHistory_fields(5) ok] by (simp add: step_def)
next
  case ClearFinishedTransfers
  then show ?thesis
    using keepsHistory_historyOk [OF keepsHistory_fields(5) ok] by (simp add: step_def)
next
  case (EnsureSettled a result)
  have "keepsHistory s (step P s (EnsureSettled a result))"
    by (simp add: step_def keepsHistory_failUpload keepsHistory_sendTransport)
  then show ?thesis using ok EnsureSettled by (auto intro: keepsHistory_historyOk)
next
  case (DeleteSettled a result)
  have "keepsHistory s (step P s (DeleteSettled a result))"
    by (simp add: step_def Let_def keepsHistory_failUpload keepsHistory_sendTransport)
  then show ?thesis using ok DeleteSettled by (auto intro: keepsHistory_historyOk)
next
  case (TransportProgress a loaded percent)
  have "keepsHistory s (step P s (TransportProgress a loaded percent))"
    by (simp add: step_def)
  then show ?thesis using ok TransportProgress by (auto intro: keepsHistory_historyOk)
next
  case (TransportLoad a status)
  have "keepsHistory s (step P s (TransportLoad a status))"
    by (auto simp: step_def Let_def
        intro: keepsHistory_trans [OF keepsHistory_updateItem keepsHistory_setPhase]
          keepsHistory_trans [OF keepsHistory_updateItem keepsHistory_failUpload]
          keepsHistory_trans [OF keepsHistory_updateItem
            keepsHistory_trans [OF keepsHistory_updateItem keepsHistory_setPhase]])
  then show ?thesis using ok TransportLoad by (auto intro: keepsHistory_historyOk)
next
  case (TransportError a)
  have "keepsHistory s (step P s (TransportError a))"
    by (simp add: step_def keepsHistory_failUpload)
  then show ?thesis using ok TransportError by (auto intro: keepsHistory_historyOk)
next
  case (TransportAbort a)
  have "keepsHistory s (step P s (TransportAbort a))"
    by (simp add: step_def onAbort_def keepsHistory_failUpload)
  then show ?thesis using ok TransportAbort by (auto intro: keepsHistory_historyOk)
next
  case (MoveSettled a result)
  have "keepsHistory s (step P s (MoveSettled a result))"
    by (auto simp: step_def
        intro: keepsHistory_trans [OF keepsHistory_updateItem keepsHistory_setPhase])
  then show ?thesis using ok MoveSettled by (auto intro: keepsHistory_historyOk)
next
  case (LoadResumed a)
  have "keepsHistory s (step P s (LoadResumed a))"
    by (auto simp: step_def
        intro: keepsHistory_trans [OF keepsHistory_fields(3) keepsHistory_finishUpload])
  then show ?thesis using ok LoadResumed by (auto intro: keepsHistory_historyOk)
qed

lemma historyOk_runQueue: "historyOk (runQueue P mobile events)"
proof -
  have "historyOk s \<Longrightarrow> historyOk (foldl (step P) s events)" for s
    by (induction events arbitrary: s) (simp_all add: historyOk_step)
  moreover have "historyOk (initialQueueState mobile)"
    by (simp add: historyOk_def initialQueueState_def)
  ultimately show ?thesis by (simp add: runQueue_def)
qed

text \<open>The items of the history that are uploading, counted through the references.\<close>

definition historyUploadingCount :: "queueState \<Rightarrow> nat" where
  "historyUploadingCount s =
     length (filter (\<lambda>a. statusAt s a = Some Uploading) (transferItems s))"

lemma historyUploadingCount_le:
  assumes "historyOk s"
  shows "historyUploadingCount s \<le> uploadingCount s"
proof -
  let ?Q = "\<lambda>slot. t_status (slotItem slot) = Uploading"
  have "historyUploadingCount s =
        card {a \<in> set (transferItems s). statusAt s a = Some Uploading}"
    using assms by (simp add: historyUploadingCount_def historyOk_def distinct_card
        [symmetric])
  also have "\<dots> \<le> card {i. i < length (itemStore s) \<and> ?Q (itemStore s ! i)}"
    using assms by (intro card_mono) (auto simp: historyOk_def statusAt_def)
  also have "\<dots> = uploadingCount s"
    by (simp add: uploadingCount_def length_filter_conv_card)
  finally show ?thesis .
qed

text \<open>
  C1. After any sequence of events (batches enqueued, cancellations, dismissals, and the
  completions and failures of every step of an upload), the number of items whose status
  is \<^verbatim>\<open>uploading\<close>, among all item objects and so among those of the history list,
  is at most the counter of active uploads, which is at most the concurrency limit: 3, or
  1 on a mobile client. The counter is exactly the number of started uploads that have not
  reached \<^verbatim>\<open>finishUpload\<close>: it is incremented at the start of an upload, which happens
  only below the limit, and decremented once when it ends.
\<close>

theorem upload_concurrency_bound:
  "historyUploadingCount (runQueue P mobile events) \<le> uploadingCount (runQueue P mobile events) \<and>
   int (uploadingCount (runQueue P mobile events)) \<le> activeUploads (runQueue P mobile events) \<and>
   activeUploads (runQueue P mobile events) \<le> uploadConcurrencyLimit (runQueue P mobile events) \<and>
   uploadConcurrencyLimit (runQueue P mobile events) = (if mobile then 1 else 3) \<and>
   activeUploads (runQueue P mobile events) = int (inFlightCount (runQueue P mobile events))"
proof -
  let ?s = "runQueue P mobile events"
  have inv: "queueInvariant (if mobile then 1 else 3) ?s" by (rule invariant_runQueue)
  then have "uploadingCount ?s \<le> inFlightCount ?s"
    by (intro uploadingCount_le_inFlightCount) (simp add: queueInvariant_def)
  moreover have "historyUploadingCount ?s \<le> uploadingCount ?s"
    by (intro historyUploadingCount_le historyOk_runQueue)
  ultimately show ?thesis using inv by (simp add: queueInvariant_def)
qed

definition exampleItem :: "string \<Rightarrow> TransferItem" where
  "exampleItem name =
     \<lparr> t_id = name, t_file = \<lparr> f_name = name, f_size = 7, f_lastModified = 0 \<rparr>,
       t_sourceName = name, t_targetName = name, t_targetPath = ''/pics/'' @ name,
       t_destinationPath = ''/pics'', t_uploadUrl = ''http://files.example.com:3923'',
       t_name = name, t_size = 7, t_loaded = 0, t_progress = 0, t_status = Queued,
       t_replaceExisting = False, t_error = None, t_xhr = None \<rparr>"

definition exampleEvents :: "queueEvent list" where
  "exampleEvents =
     [EnqueueBatch [exampleItem ''a'', exampleItem ''b'', exampleItem ''c'', exampleItem ''d'',
        exampleItem ''e''],
      EnqueueDone,
      EnsureSettled 0 \<lparr> fa_ok = True, fa_error = None \<rparr>,
      TransportLoad 0 201,
      LoadResumed 0,
      CancelTransfer ''b'',
      EnsureSettled 2 \<lparr> fa_ok = False, fa_error = None \<rparr>]"

text \<open>
  The theorem at a run on a desktop client: five items are enqueued, the first completes,
  a cancellation reaches the second while it waits for its destination, and the third
  fails; three items are uploading at the end.
\<close>

lemma example_run:
  "map (t_status \<circ> slotItem) (itemStore (runQueue examplePlatform False exampleEvents))
     = [Complete, Uploading, ErrorStatus, Uploading, Uploading] \<and>
   transferItems (runQueue examplePlatform False exampleEvents) = [0, 1, 2, 3, 4] \<and>
   uploadQueue (runQueue examplePlatform False exampleEvents) = [] \<and>
   activeUploads (runQueue examplePlatform False exampleEvents) = 3"
  by code_simp

theorem upload_concurrency_bound_witness:
  "historyUploadingCount (runQueue examplePlatform False exampleEvents) = 3 \<and>
   uploadingCount (runQueue examplePlatform False exampleEvents) = 3 \<and>
   activeUploads (runQueue examplePlatform False exampleEvents) = 3 \<and>
   uploadConcurrencyLimit (runQueue examplePlatform False exampleEvents) = 3 \<and>
   inFlightCount (runQueue examplePlatform False exampleEvents) = 3"
proof -
  have "uploadingCount (runQueue examplePlatform False exampleEvents) =
        length (filter (\<lambda>st. st = Uploading)
          (map (t_status \<circ> slotItem) (itemStore (runQueue examplePlatform False exampleEvents))))"
    by (simp add: uploadingCount_def filter_map comp_def)
  then have u: "uploadingCount (runQueue examplePlatform False exampleEvents) = 3"
    using example_run by simp
  have h: "historyUploadingCount (runQueue examplePlatform False exampleEvents) = 3"
    by code_simp
  show ?thesis
    using upload_concurrency_bound [of examplePlatform False exampleEvents] example_run u h
    by simp
qed

end
